theory Spec2Isabelle
  imports Main "HOL-Library.Word"
begin

section \<open>The anti-flooding agent buffer of client-agent/buffer.c\<close>

text \<open>
  The module keeps its ring in file-level variables. They are collected in the record
  \<open>bstate\<close>; every function of the module takes the record and returns the updated one.
  \<^item> \<open>unsigned int\<close> is \<open>32 word\<close>: \<open>+\<close>, \<open>-\<close>, \<open>*\<close> wrap, \<open>div\<close>, \<open>mod\<close> and
    the order are the unsigned ones.
  \<^item> The indices \<open>i\<close> (head) and \<open>j\<close> (tail) are \<open>int\<close> in C. The record keeps their 32
    bits (\<open>i_head\<close>, \<open>j_tail\<close>); \<open>forward\<close> works on them as unsigned values, as the
    usual arithmetic conversions of C do, and an array access reads them back as signed.
  \<^item> \<open>char **buffer\<close> is \<open>slot list option\<close>: \<open>None\<close> is the NULL array, a slot is
    \<open>None\<close> (NULL) or \<open>Some msg\<close> (an owned copy of the message).
  \<^item> \<open>time_t\<close> is a 64-bit signed value, modelled as \<open>int\<close>; \<open>tolerance\<close> is converted
    to it before the comparison.
  \<^item> A NULL or out-of-range array access and a division by zero are undefined behaviour in
    C; the model returns them as a \<open>fault\<close>. \<open>exit(1)\<close> is the fault \<open>Fatal_exit\<close>.
  \<^item> The mutex and the condition variable are not modelled: each function is one critical
    section. An append reports whether it signalled \<open>cond_no_empty\<close>; a dispatcher
    iteration on an empty buffer waits, which is the value \<open>None\<close>.
  \<^item> \<open>MIN_BUFFER_CAPACITY\<close> and \<open>MAX_BUFFER_CAPACITY\<close> are macros of a header that is
    not part of the sources at hand: they are parameters (\<open>limits\<close>).
  \<^item> \<open>time(NULL)\<close> and the success of \<open>realloc\<close> and \<open>strdup\<close> are inputs of
    \<open>buffer_append\<close> (\<open>env\<close>).
  \<^item> Logging, \<open>send_msg\<close> and the pacing of the dispatcher (\<open>os_wait\<close>, \<open>delay\<close>) have no
    effect on the variables of the module; of an iteration the model keeps what it hands to
    \<open>send_msg\<close>.
\<close>

type_synonym u32 = "32 word"
type_synonym time_t = int
type_synonym slot = "string option"

datatype level = NORMAL | WARNING | FULL | FLOOD

datatype fault = Null_deref | Out_of_bounds | Div_by_zero | Fatal_exit

record limits =
  MIN_BUFFER_CAPACITY :: u32
  MAX_BUFFER_CAPACITY :: u32

record env =
  now :: time_t
  realloc_ok :: bool
  strdup_ok :: bool

record bstate =
  i_head :: u32
  j_tail :: u32
  message_count :: u32
  state :: level
  warn_level :: u32
  normal_level :: u32
  tolerance :: u32
  buff_full :: bool
  buff_warn :: bool
  buff_flood :: bool
  buff_normal :: bool
  buffer :: "slot list option"
  current_capacity :: u32
  start :: time_t
  end_time :: time_t
  msg_count :: nat

text \<open>The variables as the C runtime zero-initialises them, before any \<open>buffer_init\<close>.\<close>

definition uninitialized :: bstate where
  "uninitialized =
     \<lparr>i_head = 0, j_tail = 0, message_count = 0, state = NORMAL,
      warn_level = 0, normal_level = 0, tolerance = 0,
      buff_full = False, buff_warn = False, buff_flood = False, buff_normal = False,
      buffer = None, current_capacity = 0, start = 0, end_time = 0, msg_count = 0\<rparr>"

subsection \<open>Fill predicates\<close>

definition full :: "u32 \<Rightarrow> u32 \<Rightarrow> int" where
  "full count capacity = (if count = capacity - 1 then 1 else 0)"

definition empty :: "u32 \<Rightarrow> int" where
  "empty count = (if count = 0 then 1 else 0)"

definition warn :: "bstate \<Rightarrow> u32 \<Rightarrow> u32 \<Rightarrow> int" where
  "warn s count capacity =
     (if capacity \<le> 1 then 0
      else if warn_level s \<le> count * 100 div (capacity - 1) then 1 else 0)"

definition nowarn :: "bstate \<Rightarrow> u32 \<Rightarrow> u32 \<Rightarrow> int" where
  "nowarn s count capacity =
     (if capacity \<le> 1 then 1
      else if count * 100 div (capacity - 1) < warn_level s then 1 else 0)"

definition normal :: "bstate \<Rightarrow> u32 \<Rightarrow> u32 \<Rightarrow> int" where
  "normal s count capacity =
     (if capacity \<le> 1 then 1
      else if count * 100 div (capacity - 1) \<le> normal_level s then 1 else 0)"

definition forward :: "u32 \<Rightarrow> u32 \<Rightarrow> fault + u32" where
  "forward idx capacity =
     (if capacity = 0 then Inl Div_by_zero else Inr ((idx + 1) mod capacity))"

text \<open>
  An access \<open>buffer[idx]\<close>: the array must exist and the signed index must lie inside the
  allocation.
\<close>

definition slot_index :: "slot list option \<Rightarrow> u32 \<Rightarrow> fault + (slot list \<times> nat)" where
  "slot_index b idx =
     (case b of
        None \<Rightarrow> Inl Null_deref
      | Some xs \<Rightarrow>
          if sint idx < 0 \<or> length xs \<le> nat (sint idx) then Inl Out_of_bounds
          else Inr (xs, nat (sint idx)))"

subsection \<open>Resizing\<close>

text \<open>
  \<open>realloc\<close> keeps the slots that fit into the new size; the memory it adds is
  indeterminate in C and read as NULL here. The loop of \<open>resize_internal_buffer\<close> then
  writes NULL into the slots from the old capacity on (\<open>null_from\<close>).
\<close>

definition realloc_slots :: "slot list option \<Rightarrow> nat \<Rightarrow> slot list" where
  "realloc_slots b n =
     (case b of
        None \<Rightarrow> replicate n None
      | Some xs \<Rightarrow> take n xs @ replicate (n - length xs) None)"

definition null_from :: "nat \<Rightarrow> slot list \<Rightarrow> slot list" where
  "null_from k xs = take k xs @ replicate (length xs - k) None"

definition resize_internal_buffer :: "limits \<Rightarrow> bool \<Rightarrow> u32 \<Rightarrow> bstate \<Rightarrow> int \<times> bstate" where
  "resize_internal_buffer L alloc_ok new_capacity s =
     (if new_capacity = 0 \<or> MAX_BUFFER_CAPACITY L < new_capacity then (- 1, s)
      else if \<not> alloc_ok then (- 1, s)
      else
        (0, s\<lparr>buffer :=
                 Some (null_from (unat (current_capacity s))
                         (realloc_slots (buffer s) (unat new_capacity))),
               current_capacity := new_capacity\<rparr>))"

subsection \<open>Initialisation and destruction\<close>

record config =
  buflength :: u32
  cfg_warn_level :: int
  cfg_normal_level :: int
  cfg_tolerance :: int

text \<open>
  Modelled from the spec: \<open>getDefine_Int\<close> is defined outside the sources at hand. The
  spec says of \<open>init\<close> that it validates the configuration bounds and fails fatally on an
  invalid configuration; the function gets the configured value and the bounds of the call.
\<close>

definition getDefine_Int :: "int \<Rightarrow> int \<Rightarrow> int \<Rightarrow> fault + u32" where
  "getDefine_Int v lo hi = (if lo \<le> v \<and> v \<le> hi then Inr (word_of_int v) else Inl Fatal_exit)"

definition free_all :: "slot list option \<Rightarrow> slot list option" where
  "free_all b = map_option (map (\<lambda>_. None)) b"

definition buffer_init :: "limits \<Rightarrow> config \<Rightarrow> bool \<Rightarrow> bstate \<Rightarrow> fault + bstate" where
  "buffer_init L cfg alloc_ok s =
     (let desired_capacity = buflength cfg + 1;
          r = (if buffer s = None \<or> desired_capacity \<noteq> current_capacity s
               then resize_internal_buffer L alloc_ok desired_capacity
                      (s\<lparr>buffer := free_all (buffer s)\<rparr>)
               else (0, s))
      in if fst r \<noteq> 0 then Inl Fatal_exit
         else
           (let s1 = (snd r)\<lparr>i_head := 0, j_tail := 0, message_count := 0, state := NORMAL,
                              buff_full := False, buff_warn := False,
                              buff_flood := False, buff_normal := False\<rparr>
            in case getDefine_Int (cfg_warn_level cfg) 1 100 of
                 Inl f \<Rightarrow> Inl f
               | Inr wl \<Rightarrow>
                   (case getDefine_Int (cfg_normal_level cfg) 0 (sint (wl - 1)) of
                      Inl f \<Rightarrow> Inl f
                    | Inr nl \<Rightarrow>
                        (case getDefine_Int (cfg_tolerance cfg) 0 600 of
                           Inl f \<Rightarrow> Inl f
                         | Inr tol \<Rightarrow>
                             Inr (s1\<lparr>warn_level := wl, normal_level := nl,
                                      tolerance := tol\<rparr>)))))"

definition buffer_destroy :: "bstate \<Rightarrow> bstate" where
  "buffer_destroy s =
     s\<lparr>buffer := None, current_capacity := 0, i_head := 0, j_tail := 0, message_count := 0,
       state := NORMAL, buff_full := False, buff_warn := False, buff_flood := False,
       buff_normal := False, start := 0, end_time := 0\<rparr>"

definition buffer_is_full :: "bstate \<Rightarrow> int" where
  "buffer_is_full s = full (message_count s) (current_capacity s)"

definition buffer_is_empty :: "bstate \<Rightarrow> int" where
  "buffer_is_empty s = empty (message_count s)"

definition w_agentd_get_buffer_lenght :: "bstate \<Rightarrow> int" where
  "w_agentd_get_buffer_lenght s =
     (if 0 < current_capacity s then sint (message_count s) else - 1)"

subsection \<open>The producer: \<open>buffer_append\<close>\<close>

text \<open>
  The capacity that \<open>buffer_append\<close> asks for: twice the current one (in 32 bits), raised
  to the minimum and cut at the maximum.
\<close>

definition new_desired_capacity :: "limits \<Rightarrow> bstate \<Rightarrow> u32" where
  "new_desired_capacity L s =
     (let n = current_capacity s * 2;
          n1 = (if n < MIN_BUFFER_CAPACITY L then MIN_BUFFER_CAPACITY L else n)
      in if MAX_BUFFER_CAPACITY L < n1 then MAX_BUFFER_CAPACITY L else n1)"

text \<open>
  \<open>resize_request\<close> is the argument with which the first block of \<open>buffer_append\<close> calls
  \<open>resize_internal_buffer\<close>, if it calls it; \<open>append_grow\<close> is that block. A failed resize
  only logs, so the block continues with the state that \<open>resize_internal_buffer\<close> returns.
\<close>

definition resize_request :: "limits \<Rightarrow> bstate \<Rightarrow> u32 option" where
  "resize_request L s =
     (if state s = WARNING
         \<or> (state s = NORMAL \<and> warn s (message_count s) (current_capacity s) \<noteq> 0)
      then (if current_capacity s < new_desired_capacity L s
            then Some (new_desired_capacity L s) else None)
      else None)"

definition append_grow :: "limits \<Rightarrow> env \<Rightarrow> bstate \<Rightarrow> bstate" where
  "append_grow L e s =
     (case resize_request L s of
        None \<Rightarrow> s
      | Some n \<Rightarrow> snd (resize_internal_buffer L (realloc_ok e) n s))"

text \<open>The \<open>switch\<close> of \<open>buffer_append\<close>, evaluated on the count before the new message.\<close>

definition append_levels :: "env \<Rightarrow> bstate \<Rightarrow> bstate" where
  "append_levels e s =
     (case state s of
        NORMAL \<Rightarrow>
          if full (message_count s) (current_capacity s) \<noteq> 0
          then s\<lparr>buff_full := True, state := FULL, start := now e\<rparr>
          else if warn s (message_count s) (current_capacity s) \<noteq> 0
          then s\<lparr>state := WARNING, buff_warn := True\<rparr>
          else s
      | WARNING \<Rightarrow>
          if full (message_count s) (current_capacity s) \<noteq> 0
          then s\<lparr>buff_full := True, state := FULL, start := now e\<rparr>
          else if normal s (message_count s) (current_capacity s) \<noteq> 0
          then s\<lparr>state := NORMAL, buff_warn := False, buff_normal := True\<rparr>
          else s
      | FULL \<Rightarrow>
          (let s1 = s\<lparr>end_time := now e\<rparr>
           in if uint (tolerance s1) \<le> end_time s1 - start s1
              then s1\<lparr>state := FLOOD, buff_flood := True\<rparr>
              else if normal s1 (message_count s1) (current_capacity s1) \<noteq> 0
              then s1\<lparr>state := NORMAL, buff_full := False, buff_normal := True, start := 0\<rparr>
              else if nowarn s1 (message_count s1) (current_capacity s1) \<noteq> 0
                      \<and> \<not> (full (message_count s1) (current_capacity s1) \<noteq> 0)
              then s1\<lparr>state := WARNING, buff_full := False, buff_warn := True\<rparr>
              else s1)
      | FLOOD \<Rightarrow>
          if normal s (message_count s) (current_capacity s) \<noteq> 0
          then s\<lparr>state := NORMAL, buff_flood := False, buff_full := False,
                 buff_normal := True, start := 0\<rparr>
          else if nowarn s (message_count s) (current_capacity s) \<noteq> 0
                  \<and> \<not> (full (message_count s) (current_capacity s) \<noteq> 0)
          then s\<lparr>state := WARNING, buff_flood := False, buff_full := False,
                 buff_warn := True\<rparr>
          else s)"

text \<open>
  Modelled from the spec: \<open>w_agentd_state_update\<close> is defined outside the sources at hand.
  The spec calls it the telemetry hook that increments a monotonic message counter of the
  agent state module; the counter is the field \<open>msg_count\<close>.
\<close>

definition w_agentd_state_update_INCREMENT_MSG_COUNT :: "bstate \<Rightarrow> bstate" where
  "w_agentd_state_update_INCREMENT_MSG_COUNT s = s\<lparr>msg_count := Suc (msg_count s)\<rparr>"

text \<open>
  The last block of \<open>buffer_append\<close>: drop the message when the ring is full, else copy
  it into the slot at the head. The result is the return value, whether \<open>cond_no_empty\<close>
  was signalled, and the new state.
\<close>

definition append_store :: "env \<Rightarrow> string \<Rightarrow> bstate \<Rightarrow> fault + (int \<times> bool \<times> bstate)" where
  "append_store e msg s =
     (if full (message_count s) (current_capacity s) \<noteq> 0 then Inr (- 1, False, s)
      else
        (case slot_index (buffer s) (i_head s) of
           Inl f \<Rightarrow> Inl f
         | Inr (xs, k) \<Rightarrow>
             if \<not> strdup_ok e then Inr (- 1, False, s\<lparr>buffer := Some (xs[k := None])\<rparr>)
             else
               (case forward (i_head s) (current_capacity s) of
                  Inl f \<Rightarrow> Inl f
                | Inr i' \<Rightarrow>
                    Inr (0, True,
                         s\<lparr>buffer := Some (xs[k := Some msg]), i_head := i',
                           message_count := message_count s + 1\<rparr>))))"

text \<open>\<open>buffer_append\<close> runs its four blocks in sequence.\<close>

definition buffer_append :: "limits \<Rightarrow> env \<Rightarrow> string \<Rightarrow> bstate \<Rightarrow> fault + (int \<times> bool \<times> bstate)" where
  "buffer_append L e msg s =
     append_store e msg
       (w_agentd_state_update_INCREMENT_MSG_COUNT (append_levels e (append_grow L e s)))"

subsection \<open>The consumer: one iteration of \<open>dispatch_buffer\<close>\<close>

text \<open>The \<open>switch\<close> of \<open>dispatch_buffer\<close>, evaluated on the count before the pop.\<close>

definition dispatch_levels :: "bstate \<Rightarrow> bstate" where
  "dispatch_levels s =
     (case state s of
        NORMAL \<Rightarrow> s
      | WARNING \<Rightarrow>
          if normal s (message_count s) (current_capacity s) \<noteq> 0
          then s\<lparr>state := NORMAL, buff_normal := True, buff_warn := False\<rparr>
          else s
      | FULL \<Rightarrow>
          if normal s (message_count s) (current_capacity s) \<noteq> 0
          then s\<lparr>state := NORMAL, buff_normal := True, buff_full := False,
                 buff_warn := False, start := 0\<rparr>
          else if nowarn s (message_count s) (current_capacity s) \<noteq> 0
          then s\<lparr>state := WARNING, buff_full := False, buff_warn := True\<rparr>
          else s
      | FLOOD \<Rightarrow>
          if normal s (message_count s) (current_capacity s) \<noteq> 0
          then s\<lparr>state := NORMAL, buff_normal := True, buff_flood := False,
                 buff_full := False, buff_warn := False, start := 0\<rparr>
          else if nowarn s (message_count s) (current_capacity s) \<noteq> 0
          then s\<lparr>state := WARNING, buff_flood := False, buff_full := False,
                 buff_warn := True\<rparr>
          else s)"

text \<open>
  Taking the slot at the tail: the result is the slot read and the new state.
\<close>

definition dispatch_take :: "bstate \<Rightarrow> fault + (slot \<times> bstate)" where
  "dispatch_take s =
     (case slot_index (buffer s) (j_tail s) of
        Inl f \<Rightarrow> Inl f
      | Inr (xs, k) \<Rightarrow>
          (case forward (j_tail s) (current_capacity s) of
             Inl f \<Rightarrow> Inl f
           | Inr j' \<Rightarrow>
               Inr (xs ! k,
                    s\<lparr>buffer := Some (xs[k := None]), j_tail := j',
                      message_count := message_count s - 1\<rparr>)))"

text \<open>
  The critical section of an iteration: wait while the buffer is empty (\<open>None\<close>), run the
  state machine, take the slot at the tail.
\<close>

definition dispatch_locked :: "bstate \<Rightarrow> (fault + (slot \<times> bstate)) option" where
  "dispatch_locked s =
     (if empty (message_count s) \<noteq> 0 then None
      else Some (dispatch_take (dispatch_levels s)))"

text \<open>
  What an iteration hands to \<open>send_msg\<close>: the notifications owed for the edge flags, in
  the order warn, full, flood, normal, each flag cleared when its notification is sent,
  then the payload unless the slot was NULL.
\<close>

datatype sent = Warn_notice | Full_notice | Flood_notice | Normal_notice | Payload string

definition dispatch_notify :: "bstate \<Rightarrow> sent list \<times> bstate" where
  "dispatch_notify s =
     ((if buff_warn s then [Warn_notice] else [])
        @ (if buff_full s then [Full_notice] else [])
        @ (if buff_flood s then [Flood_notice] else [])
        @ (if buff_normal s then [Normal_notice] else []),
      s\<lparr>buff_warn := False, buff_full := False, buff_flood := False, buff_normal := False\<rparr>)"

definition dispatch_iteration :: "bstate \<Rightarrow> (fault + (sent list \<times> bstate)) option" where
  "dispatch_iteration s =
     (case dispatch_locked s of
        None \<Rightarrow> None
      | Some (Inl f) \<Rightarrow> Some (Inl f)
      | Some (Inr (m, s1)) \<Rightarrow>
          Some (Inr (fst (dispatch_notify s1)
                       @ (case m of None \<Rightarrow> [] | Some p \<Rightarrow> [Payload p]),
                     snd (dispatch_notify s1))))"

subsection \<open>Runs\<close>

text \<open>
  A run is a sequence of calls on one buffer between \<open>buffer_init\<close> and \<open>buffer_destroy\<close>:
  appends by the producers and iterations of the dispatcher. An iteration that finds the
  buffer empty waits and leaves the state as it is. A fault ends the run.
\<close>

datatype call = Append string env | Pop

fun run :: "limits \<Rightarrow> call list \<Rightarrow> bstate \<Rightarrow> fault + bstate" where
  "run L [] s = Inr s"
| "run L (Append msg e # cs) s =
     (case buffer_append L e msg s of
        Inl f \<Rightarrow> Inl f
      | Inr (rc, sig, s') \<Rightarrow> run L cs s')"
| "run L (Pop # cs) s =
     (case dispatch_iteration s of
        None \<Rightarrow> run L cs s
      | Some (Inl f) \<Rightarrow> Inl f
      | Some (Inr (out, s')) \<Rightarrow> run L cs s')"

subsection \<open>Reading the ring\<close>

text \<open>
  \<open>pops n\<close> is what \<open>n\<close> successive critical sections of the dispatcher take out of the
  ring, as long as they neither wait nor fault.
\<close>

fun pops :: "nat \<Rightarrow> bstate \<Rightarrow> slot list" where
  "pops 0 s = []"
| "pops (Suc n) s =
     (case dispatch_locked s of
        Some (Inr (m, s')) \<Rightarrow> m # pops n s'
      | _ \<Rightarrow> [])"

text \<open>
  The invariant of the ring as the specification states it, over the integers:
  \<open>0 \<le> count \<le> capacity - 1\<close> and \<open>(tail + count) mod capacity = head\<close>.
\<close>

definition ring_inv :: "bstate \<Rightarrow> bool" where
  "ring_inv s \<longleftrightarrow>
     0 \<le> uint (message_count s)
     \<and> uint (message_count s) \<le> uint (current_capacity s) - 1
     \<and> (sint (j_tail s) + uint (message_count s)) mod uint (current_capacity s) = sint (i_head s)"

text \<open>
  The invariant together with what makes it inductive: the tail lies inside the array, and
  the capacity is small enough for the indices to be non-negative as signed values.
\<close>

definition ring_ok :: "bstate \<Rightarrow> bool" where
  "ring_ok s \<longleftrightarrow>
     ring_inv s \<and> 0 \<le> sint (j_tail s) \<and> sint (j_tail s) < uint (current_capacity s)
     \<and> uint (current_capacity s) \<le> 2 ^ 31"

subsection \<open>The scenarios of the specification\<close>

text \<open>
  The configuration of the concrete scenarios: four usable slots (five allocated), warning
  at 75 percent, normal at 25 percent, ten seconds of tolerance. \<open>started\<close> is the buffer
  that \<open>buffer_init\<close> makes of it. \<open>env_at t\<close> is an append at time \<open>t\<close> whose allocations
  succeed, \<open>env_copy_fails t\<close> one whose \<open>strdup\<close> fails. With the limits \<open>no_growth\<close> the
  maximum capacity is the initial one, so the ring cannot grow; with \<open>growth_to_16\<close> it can
  double.
\<close>

definition scenario_config :: config where
  "scenario_config =
     \<lparr>buflength = 4, cfg_warn_level = 75, cfg_normal_level = 25, cfg_tolerance = 10\<rparr>"

definition env_at :: "time_t \<Rightarrow> env" where
  "env_at t = \<lparr>now = t, realloc_ok = True, strdup_ok = True\<rparr>"

definition env_copy_fails :: "time_t \<Rightarrow> env" where
  "env_copy_fails t = \<lparr>now = t, realloc_ok = True, strdup_ok = False\<rparr>"

definition no_growth :: limits where
  "no_growth = \<lparr>MIN_BUFFER_CAPACITY = 2, MAX_BUFFER_CAPACITY = 5\<rparr>"

definition growth_to_16 :: limits where
  "growth_to_16 = \<lparr>MIN_BUFFER_CAPACITY = 2, MAX_BUFFER_CAPACITY = 16\<rparr>"

definition started :: bstate where
  "started =
     \<lparr>i_head = 0, j_tail = 0, message_count = 0, state = NORMAL,
      warn_level = 75, normal_level = 25, tolerance = 10,
      buff_full = False, buff_warn = False, buff_flood = False, buff_normal = False,
      buffer = Some [None, None, None, None, None], current_capacity = 5,
      start = 0, end_time = 0, msg_count = 0\<rparr>"

subsection \<open>States that the scenarios reach when the ring cannot grow\<close>

text \<open>After the appends of \<open>a\<close>, \<open>b\<close>, \<open>c\<close> to the fresh buffer.\<close>

definition after_three :: bstate where
  "after_three =
     started\<lparr>i_head := 3, message_count := 3,
             buffer := Some [Some ''a'', Some ''b'', Some ''c'', None, None],
             msg_count := 3\<rparr>"

text \<open>After the append of \<open>d\<close> as well.\<close>

definition after_four :: bstate where
  "after_four =
     started\<lparr>i_head := 4, message_count := 4, state := WARNING, buff_warn := True,
             buffer := Some [Some ''a'', Some ''b'', Some ''c'', Some ''d'', None],
             msg_count := 4\<rparr>"

text \<open>
  After a fifth, dropped append at time 0 and one iteration of the dispatcher: the
  notifications are sent, \<open>a\<close> is taken, three messages remain and the state is still FULL.
\<close>

definition full_minus_one :: bstate where
  "full_minus_one =
     started\<lparr>i_head := 4, j_tail := 1, message_count := 3, state := FULL,
             buffer := Some [None, Some ''b'', Some ''c'', Some ''d'', None],
             msg_count := 5\<rparr>"

text \<open>\<open>full_minus_one\<close> after an append of \<open>f\<close> at time 11.\<close>

definition flooded :: bstate where
  "flooded =
     full_minus_one\<lparr>i_head := 0, message_count := 4, state := FLOOD, buff_flood := True,
                    buffer := Some [None, Some ''b'', Some ''c'', Some ''d'', Some ''f''],
                    end_time := 11, msg_count := 6\<rparr>"

text \<open>\<open>flooded\<close> after the critical section of the next iteration of the dispatcher.\<close>

definition flooded_popped :: bstate where
  "flooded_popped =
     flooded\<lparr>j_tail := 2, message_count := 3,
             buffer := Some [None, None, Some ''c'', Some ''d'', Some ''f'']\<rparr>"

text \<open>\<open>full_minus_one\<close> after a second iteration of the dispatcher.\<close>

definition full_minus_two :: bstate where
  "full_minus_two =
     full_minus_one\<lparr>j_tail := 2, message_count := 2,
                    buffer := Some [None, None, Some ''c'', Some ''d'', None]\<rparr>"

text \<open>
  \<open>full_minus_two\<close> after the critical section of a third iteration, which has set the
  warn edge flag and has not yet reached its notifications.
\<close>

definition warn_pending :: bstate where
  "warn_pending =
     started\<lparr>i_head := 4, j_tail := 3, message_count := 1, state := WARNING,
             buff_warn := True,
             buffer := Some [None, None, None, Some ''d'', None],
             msg_count := 5\<rparr>"

text \<open>\<open>warn_pending\<close> after an append of \<open>f\<close>.\<close>

definition warn_lost :: bstate where
  "warn_lost =
     warn_pending\<lparr>i_head := 0, message_count := 2, state := NORMAL, buff_warn := False,
                  buff_normal := True,
                  buffer := Some [None, None, None, Some ''d'', Some ''f''],
                  msg_count := 6\<rparr>"

text \<open>
  \<open>full_minus_two\<close> after an append of \<open>f\<close> at time 11 whose copy fails: the state machine
  has gone to FLOOD and set the flood edge flag, the message is not stored.
\<close>

definition flood_unsent :: bstate where
  "flood_unsent =
     full_minus_two\<lparr>state := FLOOD, buff_flood := True, end_time := 11, msg_count := 6\<rparr>"

text \<open>\<open>flood_unsent\<close> after the critical section of the next iteration of the dispatcher.\<close>

definition flood_unsent_popped :: bstate where
  "flood_unsent_popped =
     flood_unsent\<lparr>j_tail := 3, message_count := 1, state := WARNING, buff_warn := True,
                  buff_flood := False,
                  buffer := Some [None, None, None, Some ''d'', None]\<rparr>"

subsection \<open>States of a buffer that warns only when it is full\<close>

text \<open>
  The same configuration with \<open>warn_level = 100\<close>, and the buffer that \<open>buffer_init\<close> makes
  of it.
\<close>

definition scenario_config_100 :: config where
  "scenario_config_100 =
     \<lparr>buflength = 4, cfg_warn_level = 100, cfg_normal_level = 25, cfg_tolerance = 10\<rparr>"

definition started_100 :: bstate where
  "started_100 = started\<lparr>warn_level := 100\<rparr>"

text \<open>
  After four stored appends, a dropped append at time 0, which enters FULL, and a dropped
  append at time 11, which enters FLOOD: no iteration of the dispatcher has run, the full
  and the flood edge flag are set.
\<close>

definition flood_pending :: bstate where
  "flood_pending =
     started_100\<lparr>i_head := 4, message_count := 4, state := FLOOD, buff_full := True,
                 buff_flood := True,
                 buffer := Some [Some ''a'', Some ''b'', Some ''c'', Some ''d'', None],
                 end_time := 11, msg_count := 6\<rparr>"

text \<open>
  \<open>flood_pending\<close> after the critical section of the first iteration of the dispatcher,
  before its notifications.
\<close>

definition flood_pending_popped :: bstate where
  "flood_pending_popped =
     flood_pending\<lparr>j_tail := 1, message_count := 3,
                   buffer := Some [None, Some ''b'', Some ''c'', Some ''d'', None]\<rparr>"

text \<open>\<open>flood_pending_popped\<close> after an append of \<open>g\<close> at time 12.\<close>

definition flood_lost :: bstate where
  "flood_lost =
     flood_pending_popped\<lparr>i_head := 0, message_count := 4, state := WARNING,
                          buff_full := False, buff_warn := True, buff_flood := False,
                          buffer := Some [None, Some ''b'', Some ''c'', Some ''d'', Some ''g''],
                          msg_count := 7\<rparr>"

subsection \<open>States that the scenarios reach when the ring can grow\<close>

text \<open>The fresh buffer after four appends: the fourth has doubled the capacity.\<close>

definition grown_four :: bstate where
  "grown_four =
     started\<lparr>i_head := 4, message_count := 4,
             buffer := Some [Some ''a'', Some ''b'', Some ''c'', Some ''d'', None,
                             None, None, None, None, None],
             current_capacity := 10, msg_count := 4\<rparr>"

text \<open>After a fifth append.\<close>

definition grown_five :: bstate where
  "grown_five =
     started\<lparr>i_head := 5, message_count := 5,
             buffer := Some [Some ''a'', Some ''b'', Some ''c'', Some ''d'', Some ''e'',
                             None, None, None, None, None],
             current_capacity := 10, msg_count := 5\<rparr>"

text \<open>\<open>grown_four\<close> after one iteration of the dispatcher and the append of \<open>e\<close>.\<close>

definition grown_popped :: bstate where
  "grown_popped =
     started\<lparr>i_head := 5, j_tail := 1, message_count := 4,
             buffer := Some [None, Some ''b'', Some ''c'', Some ''d'', Some ''e'',
                             None, None, None, None, None],
             current_capacity := 10, msg_count := 5\<rparr>"

text \<open>
  A ring whose live messages wrap around the end of the array: \<open>a\<close>, \<open>b\<close>, \<open>c\<close> appended
  and taken, then \<open>d\<close>, \<open>e\<close>, \<open>f\<close> appended.
\<close>

definition wrapped_calls :: "call list" where
  "wrapped_calls =
     [Append ''a'' (env_at 0), Append ''b'' (env_at 0), Append ''c'' (env_at 0),
      Pop, Pop, Pop,
      Append ''d'' (env_at 0), Append ''e'' (env_at 0), Append ''f'' (env_at 0)]"

definition wrapped :: bstate where
  "wrapped =
     started\<lparr>i_head := 1, j_tail := 3, message_count := 3,
             buffer := Some [Some ''f'', None, None, Some ''d'', Some ''e''],
             msg_count := 6\<rparr>"

text \<open>The wrapped ring after \<open>resize_internal_buffer\<close> to ten slots.\<close>

definition wrapped_resized :: bstate where
  "wrapped_resized =
     wrapped\<lparr>buffer := Some [Some ''f'', None, None, Some ''d'', Some ''e'',
                             None, None, None, None, None],
             current_capacity := 10\<rparr>"

text \<open>The wrapped ring after the append of \<open>g\<close>, which resizes it and stores \<open>g\<close>.\<close>

definition wrapped_grown :: bstate where
  "wrapped_grown =
     wrapped\<lparr>i_head := 2, message_count := 4,
             buffer := Some [Some ''f'', Some ''g'', None, Some ''d'', Some ''e'',
                             None, None, None, None, None],
             current_capacity := 10, msg_count := 7\<rparr>"

section \<open>What each step writes\<close>

text \<open>
  The growth step of an append writes the slot array and the capacity only; the two state
  machines write neither of them, nor the indices, the count or the message counter.
\<close>

lemma append_grow_fields:
  "state (append_grow L e s) = state s"
  "message_count (append_grow L e s) = message_count s"
  "i_head (append_grow L e s) = i_head s"
  "j_tail (append_grow L e s) = j_tail s"
  "buff_warn (append_grow L e s) = buff_warn s"
  "buff_full (append_grow L e s) = buff_full s"
  "buff_flood (append_grow L e s) = buff_flood s"
  "buff_normal (append_grow L e s) = buff_normal s"
  "start (append_grow L e s) = start s"
  "tolerance (append_grow L e s) = tolerance s"
  "warn_level (append_grow L e s) = warn_level s"
  "normal_level (append_grow L e s) = normal_level s"
  "msg_count (append_grow L e s) = msg_count s"
  by (simp_all add: append_grow_def resize_internal_buffer_def split: option.splits)

lemma append_levels_fields:
  "current_capacity (append_levels e s) = current_capacity s"
  "message_count (append_levels e s) = message_count s"
  "i_head (append_levels e s) = i_head s"
  "j_tail (append_levels e s) = j_tail s"
  "buffer (append_levels e s) = buffer s"
  "msg_count (append_levels e s) = msg_count s"
  by (simp_all add: append_levels_def Let_def split: level.splits)

lemma dispatch_levels_fields:
  "current_capacity (dispatch_levels s) = current_capacity s"
  "message_count (dispatch_levels s) = message_count s"
  "i_head (dispatch_levels s) = i_head s"
  "j_tail (dispatch_levels s) = j_tail s"
  "buffer (dispatch_levels s) = buffer s"
  "msg_count (dispatch_levels s) = msg_count s"
  by (simp_all add: dispatch_levels_def split: level.splits)

text \<open>
  An append that returns leaves the level state, the edge flags, the timer and the capacity
  as its growth step and its state machine made them, and has counted the message.
\<close>

lemma buffer_append_result:
  assumes "buffer_append L e msg s = Inr (rc, sig, s')"
  shows "state s' = state (append_levels e (append_grow L e s))"
    and "buff_warn s' = buff_warn (append_levels e (append_grow L e s))"
    and "buff_full s' = buff_full (append_levels e (append_grow L e s))"
    and "buff_flood s' = buff_flood (append_levels e (append_grow L e s))"
    and "buff_normal s' = buff_normal (append_levels e (append_grow L e s))"
    and "start s' = start (append_levels e (append_grow L e s))"
    and "current_capacity s' = current_capacity (append_grow L e s)"
    and "j_tail s' = j_tail s"
    and "msg_count s' = Suc (msg_count s)"
  using assms
  by (auto simp: buffer_append_def append_store_def
      w_agentd_state_update_INCREMENT_MSG_COUNT_def append_levels_fields append_grow_fields
      split: if_splits sum.splits prod.splits)

lemma dispatch_locked_result:
  assumes "dispatch_locked s = Some (Inr (m, s'))"
  shows "state s' = state (dispatch_levels s)"
    and "buff_warn s' = buff_warn (dispatch_levels s)"
    and "buff_full s' = buff_full (dispatch_levels s)"
    and "buff_flood s' = buff_flood (dispatch_levels s)"
    and "buff_normal s' = buff_normal (dispatch_levels s)"
    and "start s' = start (dispatch_levels s)"
    and "current_capacity s' = current_capacity s"
    and "i_head s' = i_head s"
    and "msg_count s' = msg_count s"
    and "message_count s \<noteq> 0"
  using assms
  by (auto simp: dispatch_locked_def dispatch_take_def empty_def dispatch_levels_fields
      split: if_splits sum.splits prod.splits)

lemma dispatch_iteration_capacity:
  assumes "dispatch_iteration s = Some (Inr (out, s'))"
  shows "current_capacity s' = current_capacity s"
  using assms
  by (auto simp: dispatch_iteration_def dispatch_notify_def dispatch_locked_result(7)
      split: option.splits sum.splits prod.splits)

subsection \<open>Growth\<close>

lemma new_desired_capacity_min_max:
  "new_desired_capacity L s =
     min (MAX_BUFFER_CAPACITY L) (max (MIN_BUFFER_CAPACITY L) (current_capacity s * 2))"
  by (auto simp: new_desired_capacity_def Let_def min_def max_def)

text \<open>As long as doubling the capacity does not overflow 32 bits, this is the target over the
  natural numbers as well.\<close>

lemma new_desired_capacity_unat:
  assumes "unat (current_capacity s) < 2 ^ 31"
  shows "unat (new_desired_capacity L s) =
     min (unat (MAX_BUFFER_CAPACITY L))
       (max (unat (MIN_BUFFER_CAPACITY L)) (unat (current_capacity s) * 2))"
proof -
  have d: "unat (current_capacity s * 2) = unat (current_capacity s) * 2"
    using assms by (simp add: unat_word_ariths)
  have "unat (new_desired_capacity L s) =
     min (unat (MAX_BUFFER_CAPACITY L))
       (max (unat (MIN_BUFFER_CAPACITY L)) (unat (current_capacity s * 2)))"
    unfolding new_desired_capacity_def Let_def min_def max_def word_less_nat_alt
    by simp
  with d show ?thesis by simp
qed

lemma resize_request_Some:
  assumes "resize_request L s = Some n"
  shows "n = new_desired_capacity L s" and "current_capacity s < n"
    and "state s = WARNING
         \<or> (state s = NORMAL \<and> warn s (message_count s) (current_capacity s) \<noteq> 0)"
  using assms by (auto simp: resize_request_def split: if_splits)

lemma append_grow_capacity:
  "current_capacity (append_grow L e s) = current_capacity s
   \<or> resize_request L s = Some (current_capacity (append_grow L e s))"
  by (cases "resize_request L s") (simp_all add: append_grow_def resize_internal_buffer_def)

lemma append_grow_capacity_mono:
  "current_capacity s \<le> current_capacity (append_grow L e s)"
  using append_grow_capacity [of L e s] resize_request_Some(2) [of L s]
  by (auto simp: less_imp_le)

lemma buffer_append_capacity_mono:
  assumes "buffer_append L e msg s = Inr (rc, sig, s')"
  shows "current_capacity s \<le> current_capacity s'"
  using buffer_append_result(7) [OF assms] append_grow_capacity_mono [of s L e] by simp

lemma run_capacity_mono:
  "run L cs s = Inr s' \<Longrightarrow> current_capacity s \<le> current_capacity s'"
proof (induction L cs s rule: run.induct)
  case (1 L s)
  then show ?case by simp
next
  case (2 L msg e cs s)
  show ?case
  proof (cases "buffer_append L e msg s")
    case (Inl f)
    with "2.prems" show ?thesis by simp
  next
    case (Inr r)
    obtain rc sig s1 where r: "r = (rc, sig, s1)" by (cases r)
    from Inr r "2.prems" have "run L cs s1 = Inr s'" by simp
    with "2.IH" Inr r have "current_capacity s1 \<le> current_capacity s'" by simp
    moreover from Inr r have "current_capacity s \<le> current_capacity s1"
      by (simp add: buffer_append_capacity_mono)
    ultimately show ?thesis by simp
  qed
next
  case (3 L cs s)
  show ?case
  proof (cases "dispatch_iteration s")
    case None
    with "3.prems" "3.IH"(1) show ?thesis by simp
  next
    case (Some r)
    show ?thesis
    proof (cases r)
      case (Inl f)
      with Some "3.prems" show ?thesis by simp
    next
      case (Inr p)
      obtain out s1 where p: "p = (out, s1)" by (cases p)
      from Some Inr p "3.prems" have "run L cs s1 = Inr s'" by simp
      with "3.IH"(2) Some Inr p have "current_capacity s1 \<le> current_capacity s'" by simp
      moreover from Some Inr p have "current_capacity s1 = current_capacity s"
        by (simp add: dispatch_iteration_capacity)
      ultimately show ?thesis by simp
    qed
  qed
qed

section \<open>Evaluating the scenarios\<close>

lemma replicate_numeral: "replicate (numeral k) x = x # replicate (pred_numeral k) x"
  by (simp add: numeral_eq_Suc)

lemma list_update_Cons_numeral: "(x # xs)[numeral k := y] = x # xs[pred_numeral k := y]"
  by (simp add: numeral_eq_Suc)

lemma numeral_le_one_word: "(numeral k :: u32) \<le> 1 \<longleftrightarrow> unat (numeral k :: u32) \<le> 1"
  by (simp add: word_le_nat_alt)

lemmas scenario_simps =
  buffer_append_def append_store_def append_levels_def
  w_agentd_state_update_INCREMENT_MSG_COUNT_def full_def warn_def normal_def nowarn_def
  slot_index_def forward_def list_update_Cons_numeral numeral_le_one_word

text \<open>\<open>buffer_init\<close> on the zero-initialised variables gives the buffer \<open>started\<close>.\<close>

lemma buffer_init_started:
  "5 \<le> MAX_BUFFER_CAPACITY L \<Longrightarrow>
     buffer_init L scenario_config True uninitialized = Inr started"
  by (simp add: buffer_init_def scenario_config_def uninitialized_def
      resize_internal_buffer_def Let_def getDefine_Int_def free_all_def realloc_slots_def
      null_from_def started_def not_less replicate_numeral)

text \<open>
  The growth step leaves the state as it is when the ring is at its maximum capacity, when
  the reallocation fails, and when the state is NORMAL below the warning level.
\<close>

lemma append_grow_at_max:
  "MAX_BUFFER_CAPACITY L \<le> current_capacity s \<Longrightarrow> append_grow L e s = s"
  by (auto simp: append_grow_def resize_request_def new_desired_capacity_def Let_def
      split: if_splits)

lemma append_grow_realloc_fails:
  "\<not> realloc_ok e \<Longrightarrow> append_grow L e s = s"
  by (simp add: append_grow_def resize_internal_buffer_def split: option.splits)

lemma append_grow_cannot_grow:
  assumes "MAX_BUFFER_CAPACITY L \<le> current_capacity s \<or> \<not> realloc_ok e"
  shows "append_grow L e s = s"
  using assms append_grow_at_max [of L s e] append_grow_realloc_fails [of e L s] by blast

lemma append_grow_below_warn:
  "state s = NORMAL \<Longrightarrow> warn s (message_count s) (current_capacity s) = 0 \<Longrightarrow>
     append_grow L e s = s"
  by (simp add: append_grow_def resize_request_def)

lemma run_append:
  "run L (xs @ ys) s = (case run L xs s of Inl f \<Rightarrow> Inl f | Inr s1 \<Rightarrow> run L ys s1)"
  by (induction L xs s rule: run.induct)
     (simp_all split: sum.splits option.splits prod.splits)

text \<open>The first three appends of the scenario do not ask for growth, whatever the limits.\<close>

lemma run_after_three:
  assumes "strdup_ok e1" and "strdup_ok e2" and "strdup_ok e3"
  shows "run L [Append ''a'' e1, Append ''b'' e2, Append ''c'' e3] started = Inr after_three"
  using assms
  by (simp add: append_grow_below_warn started_def after_three_def scenario_simps)

lemma fourth_append_stored:
  assumes "strdup_ok e" and "MAX_BUFFER_CAPACITY L \<le> 5 \<or> \<not> realloc_ok e"
  shows "buffer_append L e ''d'' after_three = Inr (0, True, after_four)"
proof -
  have "append_grow L e after_three = after_three"
    using assms(2) by (intro append_grow_cannot_grow) (simp add: after_three_def started_def)
  then show ?thesis
    using assms(1)
    by (simp add: buffer_append_def)
       (simp add: after_three_def after_four_def started_def scenario_simps)
qed

lemma run_after_four:
  assumes "strdup_ok e1" and "strdup_ok e2" and "strdup_ok e3" and "strdup_ok e4"
    and "MAX_BUFFER_CAPACITY L \<le> 5 \<or> \<not> realloc_ok e4"
  shows "run L [Append ''a'' e1, Append ''b'' e2, Append ''c'' e3, Append ''d'' e4] started
     = Inr after_four"
proof -
  have "run L ([Append ''a'' e1, Append ''b'' e2, Append ''c'' e3] @ [Append ''d'' e4]) started
      = run L [Append ''d'' e4] after_three"
    by (simp only: run_append run_after_three [OF assms(1-3)] sum.case)
  then show ?thesis
    by (simp add: fourth_append_stored [OF assms(4,5)])
qed

lemma fifth_append_dropped:
  assumes "MAX_BUFFER_CAPACITY L \<le> 5 \<or> \<not> realloc_ok e"
  shows "buffer_append L e ''e'' after_four =
     Inr (- 1, False,
          after_four\<lparr>buff_full := True, state := FULL, start := now e, msg_count := 5\<rparr>)"
proof -
  have "append_grow L e after_four = after_four"
    using assms by (intro append_grow_cannot_grow) (simp add: after_four_def started_def)
  then show ?thesis
    by (simp add: buffer_append_def)
       (simp add: after_four_def started_def scenario_simps)
qed

lemma run_no_growth_after_three:
  "run no_growth [Append ''a'' (env_at 0), Append ''b'' (env_at 0), Append ''c'' (env_at 0)]
     started = Inr after_three"
  by (rule run_after_three) (simp_all add: env_at_def)

lemma run_no_growth_after_four:
  "run no_growth [Append ''a'' (env_at 0), Append ''b'' (env_at 0), Append ''c'' (env_at 0),
     Append ''d'' (env_at 0)] started = Inr after_four"
  by (rule run_after_four) (simp_all add: env_at_def no_growth_def)

lemma no_growth_fifth_append_dropped:
  "buffer_append no_growth (env_at 0) ''e'' after_four =
     Inr (- 1, False,
          after_four\<lparr>buff_full := True, state := FULL, start := 0, msg_count := 5\<rparr>)"
  using fifth_append_dropped [of no_growth "env_at 0"] by (simp add: env_at_def no_growth_def)

lemma run_full_minus_one:
  "run no_growth [Append ''a'' (env_at 0), Append ''b'' (env_at 0), Append ''c'' (env_at 0),
     Append ''d'' (env_at 0), Append ''e'' (env_at 0), Pop] started = Inr full_minus_one"
  by code_simp

lemma run_wrapped: "run growth_to_16 wrapped_calls started = Inr wrapped"
  by code_simp

section \<open>The invariant of the ring\<close>

text \<open>
  \<open>ring_ok\<close> holds after \<open>buffer_init\<close> on a buffer that is not allocated, and the
  operations below keep it, as long as the maximum capacity is at most \<open>2^31\<close>, so that the
  signed indices do not overflow.
\<close>

lemma uint_of_nonneg_sint: "0 \<le> sint (x :: u32) \<Longrightarrow> uint x = sint x"
  using uint_sint [of x] sint_lt [of x] by (simp add: take_bit_int_eq_self)

lemma sint_of_small_uint:
  assumes "uint (x :: u32) < 2 ^ 31"
  shows "sint x = uint x"
proof -
  have "- (2 ^ 31) \<le> uint x"
    by (rule order_trans [of _ 0]) simp_all
  from signed_take_bit_int_eq_self [OF this assms] show ?thesis
    by (simp add: sint_uint)
qed

lemma forward_in_range:
  assumes f: "forward idx cap = Inr idx'" and c: "uint cap \<le> 2 ^ 31"
    and i0: "0 \<le> sint idx" and i1: "sint idx < uint cap"
  shows "sint idx' = (sint idx + 1) mod uint cap"
    and "0 \<le> sint idx'" and "sint idx' < uint cap"
proof -
  from f have cap: "cap \<noteq> 0" and idx': "idx' = (idx + 1) mod cap"
    by (auto simp: forward_def split: if_splits)
  from cap have pos: "0 < uint cap"
    by (simp add: word_neq_0_conv word_less_def)
  have u: "uint idx = sint idx"
    by (rule uint_of_nonneg_sint [OF i0])
  have "uint idx + uint (1 :: u32) < 2 ^ 32"
    using u i1 c by simp
  then have "uint (idx + 1) = uint idx + 1"
    by (simp add: uint_word_ariths)
  with idx' u have v: "uint idx' = (sint idx + 1) mod uint cap"
    by (simp add: uint_mod)
  with pos have "0 \<le> uint idx'" and lt: "uint idx' < uint cap"
    by simp_all
  from lt c have "uint idx' < 2 ^ 31" by simp
  then have s: "sint idx' = uint idx'"
    by (rule sint_of_small_uint)
  from s v show "sint idx' = (sint idx + 1) mod uint cap" by simp
  from s show "0 \<le> sint idx'" by simp
  from s lt show "sint idx' < uint cap" by simp
qed


lemma ring_ok_head_in_range:
  assumes "ring_ok s"
  shows "0 < uint (current_capacity s)"
    and "0 \<le> sint (i_head s)" and "sint (i_head s) < uint (current_capacity s)"
proof -
  from assms have le: "uint (message_count s) \<le> uint (current_capacity s) - 1"
    and eq: "(sint (j_tail s) + uint (message_count s)) mod uint (current_capacity s)
        = sint (i_head s)"
    by (simp_all add: ring_ok_def ring_inv_def)
  have "0 \<le> uint (message_count s)" by simp
  with le show pos: "0 < uint (current_capacity s)" by linarith
  from pos eq [symmetric] show "0 \<le> sint (i_head s)" by simp
  from pos eq [symmetric] show "sint (i_head s) < uint (current_capacity s)" by simp
qed

lemma ring_ok_fields:
  assumes "message_count s' = message_count s" and "current_capacity s' = current_capacity s"
    and "i_head s' = i_head s" and "j_tail s' = j_tail s"
  shows "ring_ok s' = ring_ok s"
  using assms by (simp add: ring_ok_def ring_inv_def)

lemma append_store_cases:
  assumes "append_store e msg s = Inr (rc, sig, s')"
  obtains (dropped) "s' = s"
  | (no_copy) b where "s' = s\<lparr>buffer := b\<rparr>"
  | (stored) b i' where "full (message_count s) (current_capacity s) = 0"
      and "forward (i_head s) (current_capacity s) = Inr i'"
      and "s' = s\<lparr>buffer := b, i_head := i', message_count := message_count s + 1\<rparr>"
  using assms
  by (auto simp: append_store_def split: if_splits sum.splits prod.splits)

lemma append_store_ring_ok:
  assumes ok: "ring_ok s" and st: "append_store e msg s = Inr (rc, sig, s')"
  shows "ring_ok s'"
  using st
proof (cases rule: append_store_cases)
  case dropped
  with ok show ?thesis by simp
next
  case (no_copy b)
  with ok show ?thesis by (simp add: ring_ok_def ring_inv_def)
next
  case (stored b i')
  let ?k = "uint (current_capacity s)"
  let ?c = "uint (message_count s)"
  from ok have le: "?c \<le> ?k - 1"
    and eq: "(sint (j_tail s) + ?c) mod ?k = sint (i_head s)"
    and j: "0 \<le> sint (j_tail s)" "sint (j_tail s) < ?k" and k: "?k \<le> 2 ^ 31"
    by (simp_all add: ring_ok_def ring_inv_def)
  note h = ring_ok_head_in_range [OF ok]
  from h(1) have "uint (1 :: u32) \<le> ?k" by simp
  then have k1: "uint (current_capacity s - 1) = ?k - 1"
    using uint_sub_lem [of 1 "current_capacity s"] by simp
  from stored(1) have "message_count s \<noteq> current_capacity s - 1"
    by (simp add: full_def split: if_splits)
  then have "?c \<noteq> uint (current_capacity s - 1)"
    by (simp add: word_uint_eq_iff)
  with k1 le have c2: "?c + 1 \<le> ?k - 1" by simp
  with k have "?c + uint (1 :: u32) < 2 ^ 32" by simp
  then have c': "uint (message_count s + 1) = ?c + 1"
    by (simp add: uint_word_ariths)
  note f = forward_in_range [OF stored(2) k h(2) h(3)]
  have "(sint (j_tail s) + (?c + 1)) mod ?k = ((sint (j_tail s) + ?c) mod ?k + 1) mod ?k"
    by (simp add: mod_add_left_eq add.assoc)
  with eq f(1) have "(sint (j_tail s) + (?c + 1)) mod ?k = sint i'" by simp
  with c2 c' j k stored(3) show ?thesis
    by (simp add: ring_ok_def ring_inv_def)
qed

lemma dispatch_take_ring_ok:
  assumes ok: "ring_ok s" and ne: "message_count s \<noteq> 0"
    and tk: "dispatch_take s = Inr (m, s')"
  shows "ring_ok s'"
proof -
  let ?k = "uint (current_capacity s)"
  let ?c = "uint (message_count s)"
  from tk obtain b j' where fw: "forward (j_tail s) (current_capacity s) = Inr j'"
    and s': "s' = s\<lparr>buffer := b, j_tail := j', message_count := message_count s - 1\<rparr>"
    by (auto simp: dispatch_take_def split: sum.splits prod.splits)
  from ok have le: "?c \<le> ?k - 1"
    and eq: "(sint (j_tail s) + ?c) mod ?k = sint (i_head s)"
    and j: "0 \<le> sint (j_tail s)" "sint (j_tail s) < ?k" and k: "?k \<le> 2 ^ 31"
    by (simp_all add: ring_ok_def ring_inv_def)
  from ne have "uint (1 :: u32) \<le> ?c"
    by (simp add: word_neq_0_conv word_less_def) 
  then have c': "uint (message_count s - 1) = ?c - 1"
    using uint_sub_lem [of 1 "message_count s"] by simp
  note f = forward_in_range [OF fw k j]
  have "((sint (j_tail s) + 1) mod ?k + (?c - 1)) mod ?k = (sint (j_tail s) + ?c) mod ?k"
    by (simp add: mod_add_left_eq)
  with eq f(1) have "(sint j' + (?c - 1)) mod ?k = sint (i_head s)" by simp
  moreover from \<open>uint (1 :: u32) \<le> ?c\<close> have "0 \<le> ?c - 1" by simp
  moreover from le have "?c - 1 \<le> ?k - 1" by simp
  ultimately show ?thesis
    using c' f(2,3) k s' by (simp add: ring_ok_def ring_inv_def)
qed


lemma resize_internal_buffer_cases:
  obtains (unchanged) "snd (resize_internal_buffer L ok n s) = s"
  | (resized) b where "n \<le> MAX_BUFFER_CAPACITY L"
      and "snd (resize_internal_buffer L ok n s) = s\<lparr>buffer := b, current_capacity := n\<rparr>"
proof (cases "n = 0 \<or> MAX_BUFFER_CAPACITY L < n \<or> \<not> ok")
  case True
  then have "snd (resize_internal_buffer L ok n s) = s"
    by (auto simp: resize_internal_buffer_def)
  then show ?thesis by (rule unchanged)
next
  case False
  then have "n \<le> MAX_BUFFER_CAPACITY L"
    by (simp add: not_less)
  moreover from False have "snd (resize_internal_buffer L ok n s) =
      s\<lparr>buffer := Some (null_from (unat (current_capacity s))
                         (realloc_slots (buffer s) (unat n))),
        current_capacity := n\<rparr>"
    by (simp add: resize_internal_buffer_def)
  ultimately show ?thesis by (rule resized)
qed

lemma append_grow_ring_ok:
  assumes ok: "ring_ok s" and mx: "uint (MAX_BUFFER_CAPACITY L) \<le> 2 ^ 31"
    and nw: "resize_request L s = None \<or> \<not> realloc_ok e
             \<or> sint (j_tail s) + uint (message_count s) < uint (current_capacity s)"
  shows "ring_ok (append_grow L e s)"
proof (cases "resize_request L s")
  case None
  with ok show ?thesis by (simp add: append_grow_def)
next
  case (Some n)
  show ?thesis
  proof (cases "realloc_ok e")
    case False
    with ok show ?thesis by (simp add: append_grow_realloc_fails)
  next
    case True
    with Some nw
    have lin: "sint (j_tail s) + uint (message_count s) < uint (current_capacity s)"
      by simp
    from Some have g: "append_grow L e s = snd (resize_internal_buffer L (realloc_ok e) n s)"
      by (simp add: append_grow_def)
    show ?thesis
    proof (cases L "realloc_ok e" n s rule: resize_internal_buffer_cases)
      case unchanged
      with g ok show ?thesis by simp
    next
      case (resized b)
      let ?k = "uint (current_capacity s)"
      let ?c = "uint (message_count s)"
      from ok have le: "?c \<le> ?k - 1"
        and eq: "(sint (j_tail s) + ?c) mod ?k = sint (i_head s)"
        and j: "0 \<le> sint (j_tail s)" "sint (j_tail s) < ?k"
        by (simp_all add: ring_ok_def ring_inv_def)
      from resize_request_Some(2) [OF Some] have kn: "?k < uint n"
        by (simp add: word_less_def)
      from resized(1) mx have n: "uint n \<le> 2 ^ 31"
        by (simp add: word_le_def)
      have nn: "0 \<le> sint (j_tail s) + ?c"
        using j(1) by simp
      from nn lin have "(sint (j_tail s) + ?c) mod ?k = sint (j_tail s) + ?c"
        by simp
      moreover from nn lin kn have "(sint (j_tail s) + ?c) mod uint n = sint (j_tail s) + ?c"
        by simp
      ultimately have "(sint (j_tail s) + ?c) mod uint n = sint (i_head s)"
        using eq by simp
      with le j kn n g resized(2) show ?thesis
        by (simp add: ring_ok_def ring_inv_def)
    qed
  qed
qed

text \<open>
  The invariant at the operations of an initialised buffer: an append keeps it unless it
  resizes a ring whose live messages reach the end of the array, and the critical section of
  the dispatcher keeps it.
\<close>

lemma buffer_append_ring_ok:
  assumes ok: "ring_ok s" and mx: "uint (MAX_BUFFER_CAPACITY L) \<le> 2 ^ 31"
    and nw: "resize_request L s = None \<or> \<not> realloc_ok e
             \<or> sint (j_tail s) + uint (message_count s) < uint (current_capacity s)"
    and r: "buffer_append L e msg s = Inr (rc, sig, s')"
  shows "ring_ok s'"
proof -
  let ?s3 = "w_agentd_state_update_INCREMENT_MSG_COUNT (append_levels e (append_grow L e s))"
  have "ring_ok ?s3 = ring_ok (append_grow L e s)"
    by (rule ring_ok_fields)
       (simp_all add: w_agentd_state_update_INCREMENT_MSG_COUNT_def append_levels_fields)
  with append_grow_ring_ok [OF ok mx nw] have "ring_ok ?s3" by simp
  moreover from r have "append_store e msg ?s3 = Inr (rc, sig, s')"
    by (simp add: buffer_append_def)
  ultimately show ?thesis by (rule append_store_ring_ok)
qed

lemma dispatch_locked_ring_ok:
  assumes ok: "ring_ok s" and r: "dispatch_locked s = Some (Inr (m, s'))"
  shows "ring_ok s'"
proof -
  from r have ne: "message_count s \<noteq> 0" and tk: "dispatch_take (dispatch_levels s) = Inr (m, s')"
    by (auto simp: dispatch_locked_def empty_def split: if_splits)
  have "ring_ok (dispatch_levels s) = ring_ok s"
    by (rule ring_ok_fields) (simp_all add: dispatch_levels_fields)
  with ok have "ring_ok (dispatch_levels s)" by simp
  moreover from ne have "message_count (dispatch_levels s) \<noteq> 0"
    by (simp add: dispatch_levels_fields)
  ultimately show ?thesis using tk by (rule dispatch_take_ring_ok)
qed

lemma buffer_init_ring_ok:
  assumes mx: "uint (MAX_BUFFER_CAPACITY L) \<le> 2 ^ 31" and nul: "buffer s = None"
    and r: "buffer_init L cfg ok s = Inr s'"
  shows "ring_ok s'"
proof -
  let ?d = "buflength cfg + 1"
  let ?r = "resize_internal_buffer L ok ?d (s\<lparr>buffer := free_all (buffer s)\<rparr>)"
  from r nul have f: "fst ?r = 0"
    by (auto simp: buffer_init_def Let_def split: if_splits)
  then have d: "?d \<noteq> 0" "?d \<le> MAX_BUFFER_CAPACITY L" and c: "current_capacity (snd ?r) = ?d"
    by (auto simp: resize_internal_buffer_def not_less split: if_splits)
  from r nul f have "i_head s' = 0" "j_tail s' = 0" "message_count s' = 0"
    "current_capacity s' = current_capacity (snd ?r)"
    by (auto simp: buffer_init_def Let_def split: if_splits sum.splits)
  moreover from d(1) have "0 < uint ?d"
    by (simp add: word_neq_0_conv word_less_def)
  moreover from d(2) mx have "uint ?d \<le> 2 ^ 31"
    by (simp add: word_le_def)
  ultimately show ?thesis
    using c by (simp add: ring_ok_def ring_inv_def)
qed

section \<open>Resizing a ring whose live messages wrap\<close>

text \<open>
  \<open>resize_internal_buffer\<close> moves no message and writes neither index: a successful call
  leaves head, tail and count as they were and keeps every slot below the old capacity in
  its place.
\<close>

lemma resize_internal_buffer_indices:
  "i_head (snd (resize_internal_buffer L ok n s)) = i_head s"
  "j_tail (snd (resize_internal_buffer L ok n s)) = j_tail s"
  "message_count (snd (resize_internal_buffer L ok n s)) = message_count s"
  by (simp_all add: resize_internal_buffer_def)

lemma resize_internal_buffer_slots:
  assumes "buffer s = Some xs" and "length xs = unat (current_capacity s)"
    and "current_capacity s \<le> n" and "fst (resize_internal_buffer L ok n s) = 0"
  shows "buffer (snd (resize_internal_buffer L ok n s))
      = Some (xs @ replicate (unat n - length xs) None)"
proof -
  from assms(3) have "unat (current_capacity s) \<le> unat n"
    by (simp add: word_le_nat_alt)
  with assms(1,2,4) show ?thesis
    by (auto simp: resize_internal_buffer_def realloc_slots_def null_from_def
        split: if_splits)
qed

text \<open>
  C1, evaluated where the code departs from it. The calls \<open>wrapped_calls\<close> leave the live
  messages \<open>d\<close>, \<open>e\<close>, \<open>f\<close> in the slots 3, 4, 0 of a ring of capacity 5 (tail 3, head 1),
  which three pops would return in this order. The next append asks for a resize to 10.
  The resize keeps \<open>f\<close> in slot 0 and the tail at 3, the head at 1, and puts empty slots
  behind slot 4: three pops now return \<open>d\<close>, \<open>e\<close> and an empty slot. The claim has the live
  messages in the slots 0 to 2, the tail at 0, the head at 3, and the pops return
  \<open>d\<close>, \<open>e\<close>, \<open>f\<close>.
\<close>

theorem resize_of_wrapped_ring_loses_fifo_order:
  "buffer_init growth_to_16 scenario_config True uninitialized = Inr started
   \<and> run growth_to_16 wrapped_calls started = Inr wrapped
   \<and> pops 3 wrapped = [Some ''d'', Some ''e'', Some ''f'']
   \<and> resize_request growth_to_16 wrapped = Some 10
   \<and> resize_internal_buffer growth_to_16 True 10 wrapped = (0, wrapped_resized)
   \<and> j_tail wrapped_resized = 3 \<and> i_head wrapped_resized = 1
   \<and> buffer wrapped_resized =
       Some [Some ''f'', None, None, Some ''d'', Some ''e'', None, None, None, None, None]
   \<and> pops 3 wrapped_resized = [Some ''d'', Some ''e'', None]"
proof -
  have "pops 3 wrapped = [Some ''d'', Some ''e'', Some ''f'']"
    by code_simp
  moreover have "resize_request growth_to_16 wrapped = Some 10"
    by code_simp
  moreover have "resize_internal_buffer growth_to_16 True 10 wrapped = (0, wrapped_resized)"
    by code_simp
  moreover have "j_tail wrapped_resized = 3" "i_head wrapped_resized = 1"
    by (simp_all add: wrapped_resized_def wrapped_def)
  moreover have "buffer wrapped_resized =
      Some [Some ''f'', None, None, Some ''d'', Some ''e'', None, None, None, None, None]"
    by (simp add: wrapped_resized_def)
  moreover have "pops 3 wrapped_resized = [Some ''d'', Some ''e'', None]"
    by code_simp
  moreover have "buffer_init growth_to_16 scenario_config True uninitialized = Inr started"
    by (rule buffer_init_started) (simp add: growth_to_16_def)
  ultimately show ?thesis
    using run_wrapped by simp
qed

text \<open>
  C2, evaluated where the code departs from it. \<open>buffer_init\<close> establishes the invariant
  (\<open>buffer_init_ring_ok\<close>), the critical section of the dispatcher keeps it
  (\<open>dispatch_locked_ring_ok\<close>), and so does an append that does not resize a ring whose
  live messages reach the end of the array (\<open>buffer_append_ring_ok\<close>). The wrapped ring
  satisfies the invariant. The append of \<open>g\<close> resizes it to capacity 10 and stores \<open>g\<close>
  in slot 1: the tail is 3, the count 4 and the head 2, while \<open>(3 + 4) mod 10 = 7\<close>. Four
  pops then return \<open>d\<close>, \<open>e\<close> and two empty slots, and leave \<open>f\<close> and \<open>g\<close> in a ring that
  counts no message.
\<close>

theorem append_with_growth_breaks_ring_invariant:
  "buffer_init growth_to_16 scenario_config True uninitialized = Inr started
   \<and> run growth_to_16 wrapped_calls started = Inr wrapped
   \<and> ring_inv wrapped \<and> ring_ok wrapped
   \<and> buffer_append growth_to_16 (env_at 0) ''g'' wrapped = Inr (0, True, wrapped_grown)
   \<and> \<not> ring_inv wrapped_grown
   \<and> (sint (j_tail wrapped_grown) + uint (message_count wrapped_grown))
        mod uint (current_capacity wrapped_grown) = 7
   \<and> sint (i_head wrapped_grown) = 2
   \<and> pops 4 wrapped_grown = [Some ''d'', Some ''e'', None, None]"
proof -
  have "ring_inv wrapped" "ring_ok wrapped"
    by code_simp+
  moreover have "buffer_append growth_to_16 (env_at 0) ''g'' wrapped = Inr (0, True, wrapped_grown)"
    by code_simp
  moreover have "\<not> ring_inv wrapped_grown"
    by code_simp
  moreover have "(sint (j_tail wrapped_grown) + uint (message_count wrapped_grown))
        mod uint (current_capacity wrapped_grown) = 7"
    by (simp add: wrapped_grown_def wrapped_def)
  moreover have "sint (i_head wrapped_grown) = 2"
    by (simp add: wrapped_grown_def wrapped_def)
  moreover have "pops 4 wrapped_grown = [Some ''d'', Some ''e'', None, None]"
    by code_simp
  moreover have "buffer_init growth_to_16 scenario_config True uninitialized = Inr started"
    by (rule buffer_init_started) (simp add: growth_to_16_def)
  ultimately show ?thesis
    using run_wrapped by simp
qed

section \<open>The scenario of the full buffer\<close>

text \<open>
  C3 as stated fails: the state machine of an append runs on the count before the new
  message is stored, so the fourth append sees three messages. When the ring cannot grow,
  the state after four appends is WARNING; when it can, the fourth append doubles the
  capacity, the state stays NORMAL and the fifth append is stored.
\<close>

theorem four_appends_do_not_reach_full:
  "run no_growth [Append ''a'' (env_at 0), Append ''b'' (env_at 0), Append ''c'' (env_at 0),
      Append ''d'' (env_at 0)] started = Inr after_four
   \<and> state after_four = WARNING \<and> \<not> buff_full after_four
   \<and> run growth_to_16 [Append ''a'' (env_at 0), Append ''b'' (env_at 0),
        Append ''c'' (env_at 0), Append ''d'' (env_at 0)] started = Inr grown_four
   \<and> state grown_four = NORMAL \<and> \<not> buff_full grown_four
   \<and> buffer_append growth_to_16 (env_at 0) ''e'' grown_four = Inr (0, True, grown_five)"
proof -
  have "state after_four = WARNING" "\<not> buff_full after_four"
    by (simp_all add: after_four_def started_def)
  moreover have "run growth_to_16 [Append ''a'' (env_at 0), Append ''b'' (env_at 0),
        Append ''c'' (env_at 0), Append ''d'' (env_at 0)] started = Inr grown_four"
    by code_simp
  moreover have "state grown_four = NORMAL" "\<not> buff_full grown_four"
    by (simp_all add: grown_four_def started_def)
  moreover have "buffer_append growth_to_16 (env_at 0) ''e'' grown_four = Inr (0, True, grown_five)"
    by code_simp
  ultimately show ?thesis
    using run_no_growth_after_four by simp
qed

text \<open>
  C3, amended. With four usable slots (capacity 5), \<open>warn_level = 75\<close>,
  \<open>normal_level = 25\<close>, \<open>tolerance = 10\<close>, and a ring that cannot grow (the maximum
  capacity is 5, or the reallocations of the fourth and fifth append fail): appending
  \<open>a\<close>, \<open>b\<close>, \<open>c\<close>, \<open>d\<close> to the empty buffer stores all four and leaves the level machine
  in WARNING with the warn edge flag set. The fifth append moves it to FULL, sets the full
  edge flag, records its time in \<open>start\<close>, and returns -1 without a signal and without
  storing the message.
\<close>

theorem scenario_full_at_fifth_append:
  "5 \<le> MAX_BUFFER_CAPACITY L
   \<and> (MAX_BUFFER_CAPACITY L = 5 \<or> (\<not> realloc_ok e4 \<and> \<not> realloc_ok e5))
   \<and> strdup_ok e1 \<and> strdup_ok e2 \<and> strdup_ok e3 \<and> strdup_ok e4
   \<longrightarrow>
   buffer_init L scenario_config True uninitialized = Inr started
   \<and> run L [Append ''a'' e1, Append ''b'' e2, Append ''c'' e3, Append ''d'' e4] started
       = Inr after_four
   \<and> state after_four = WARNING \<and> buff_warn after_four \<and> \<not> buff_full after_four
   \<and> message_count after_four = 4 \<and> current_capacity after_four = 5
   \<and> buffer after_four = Some [Some ''a'', Some ''b'', Some ''c'', Some ''d'', None]
   \<and> buffer_append L e5 ''e'' after_four =
       Inr (- 1, False,
            after_four\<lparr>buff_full := True, state := FULL, start := now e5, msg_count := 5\<rparr>)"
proof
  assume a: "5 \<le> MAX_BUFFER_CAPACITY L
   \<and> (MAX_BUFFER_CAPACITY L = 5 \<or> (\<not> realloc_ok e4 \<and> \<not> realloc_ok e5))
   \<and> strdup_ok e1 \<and> strdup_ok e2 \<and> strdup_ok e3 \<and> strdup_ok e4"
  then have g4: "MAX_BUFFER_CAPACITY L \<le> 5 \<or> \<not> realloc_ok e4"
    and g5: "MAX_BUFFER_CAPACITY L \<le> 5 \<or> \<not> realloc_ok e5"
    by auto
  from a have sd: "strdup_ok e1" "strdup_ok e2" "strdup_ok e3" "strdup_ok e4"
    by simp_all
  from a have "buffer_init L scenario_config True uninitialized = Inr started"
    by (simp add: buffer_init_started)
  moreover have "run L [Append ''a'' e1, Append ''b'' e2, Append ''c'' e3, Append ''d'' e4] started
       = Inr after_four"
    by (rule run_after_four [OF sd g4])
  moreover have "state after_four = WARNING" "buff_warn after_four" "\<not> buff_full after_four"
    "message_count after_four = 4" "current_capacity after_four = 5"
    "buffer after_four = Some [Some ''a'', Some ''b'', Some ''c'', Some ''d'', None]"
    by (simp_all add: after_four_def started_def)
  moreover note fifth_append_dropped [OF g5]
  ultimately show "buffer_init L scenario_config True uninitialized = Inr started
   \<and> run L [Append ''a'' e1, Append ''b'' e2, Append ''c'' e3, Append ''d'' e4] started
       = Inr after_four
   \<and> state after_four = WARNING \<and> buff_warn after_four \<and> \<not> buff_full after_four
   \<and> message_count after_four = 4 \<and> current_capacity after_four = 5
   \<and> buffer after_four = Some [Some ''a'', Some ''b'', Some ''c'', Some ''d'', None]
   \<and> buffer_append L e5 ''e'' after_four =
       Inr (- 1, False,
            after_four\<lparr>buff_full := True, state := FULL, start := now e5, msg_count := 5\<rparr>)"
    by blast
qed

theorem scenario_full_at_fifth_append_witness:
  "5 \<le> MAX_BUFFER_CAPACITY no_growth \<and> MAX_BUFFER_CAPACITY no_growth = 5
   \<and> strdup_ok (env_at 1) \<and> strdup_ok (env_at 2) \<and> strdup_ok (env_at 3)
   \<and> strdup_ok (env_at 4)
   \<and> buffer_init no_growth scenario_config True uninitialized = Inr started
   \<and> run no_growth [Append ''a'' (env_at 1), Append ''b'' (env_at 2),
        Append ''c'' (env_at 3), Append ''d'' (env_at 4)] started = Inr after_four
   \<and> buffer_append no_growth (env_at 5) ''e'' after_four =
       Inr (- 1, False,
            after_four\<lparr>buff_full := True, state := FULL, start := 5, msg_count := 5\<rparr>)"
  using scenario_full_at_fifth_append
          [of no_growth "env_at 4" "env_at 5" "env_at 1" "env_at 2" "env_at 3"]
  by (simp add: env_at_def no_growth_def)

section \<open>Entering FLOOD\<close>

lemma append_levels_enters_flood:
  assumes "state (append_levels e s) = FLOOD" and "state s \<noteq> FLOOD"
  shows "state s = FULL \<and> uint (tolerance s) \<le> now e - start s"
  using assms
  by (cases "state s") (auto simp: append_levels_def Let_def split: if_splits)

lemma append_levels_floods:
  assumes "state s = FULL" and "uint (tolerance s) \<le> now e - start s"
  shows "state (append_levels e s) = FLOOD" and "buff_flood (append_levels e s)"
  using assms by (simp_all add: append_levels_def Let_def)

lemma dispatch_levels_never_enters_flood:
  assumes "state (dispatch_levels s) = FLOOD"
  shows "state s = FLOOD"
  using assms
  by (cases "state s") (auto simp: dispatch_levels_def split: if_splits)

text \<open>
  C4 as stated fails: the FULL case of the append tests the elapsed time first and does not
  test whether the ring is still full. After five appends at time 0 and one iteration of the
  dispatcher the state is FULL with three messages in four usable slots; the append at
  time 11 moves the state to FLOOD and stores its message.
\<close>

theorem flood_entered_while_not_full:
  "run no_growth [Append ''a'' (env_at 0), Append ''b'' (env_at 0), Append ''c'' (env_at 0),
      Append ''d'' (env_at 0), Append ''e'' (env_at 0), Pop] started = Inr full_minus_one
   \<and> state full_minus_one = FULL
   \<and> message_count full_minus_one \<noteq> current_capacity full_minus_one - 1
   \<and> full (message_count full_minus_one) (current_capacity full_minus_one) = 0
   \<and> buffer_append no_growth (env_at 11) ''f'' full_minus_one = Inr (0, True, flooded)
   \<and> state flooded = FLOOD"
proof -
  have "state full_minus_one = FULL"
    "message_count full_minus_one \<noteq> current_capacity full_minus_one - 1"
    "full (message_count full_minus_one) (current_capacity full_minus_one) = 0"
    by (simp_all add: full_minus_one_def started_def full_def)
  moreover have "buffer_append no_growth (env_at 11) ''f'' full_minus_one
      = Inr (0, True, flooded)"
    by code_simp
  moreover have "state flooded = FLOOD"
    by (simp add: flooded_def)
  ultimately show ?thesis
    using run_full_minus_one by simp
qed

text \<open>
  C4, amended. The state machine enters FLOOD only in an append, only from FULL, and only
  when \<open>now - start\<close> has reached the tolerance; the critical section of the dispatcher never
  enters FLOOD. The append does not test whether the ring is still full: from FULL with the
  tolerance elapsed its state machine enters FLOOD and sets the flood edge flag, whatever
  the count.
\<close>

theorem flood_only_from_full_after_tolerance:
  "(buffer_append L e msg s = Inr (rc, sig, s') \<and> state s' = FLOOD \<and> state s \<noteq> FLOOD
      \<longrightarrow> state s = FULL \<and> uint (tolerance s) \<le> now e - start s)
   \<and> (dispatch_locked u = Some (Inr (m, u')) \<and> state u' = FLOOD \<longrightarrow> state u = FLOOD)
   \<and> (buffer_append L e msg s = Inr (rc, sig, s') \<and> state s = FULL
        \<and> uint (tolerance s) \<le> now e - start s
      \<longrightarrow> state s' = FLOOD \<and> buff_flood s')"
proof (intro conjI impI)
  assume a: "buffer_append L e msg s = Inr (rc, sig, s') \<and> state s' = FLOOD \<and> state s \<noteq> FLOOD"
  then have "state (append_levels e (append_grow L e s)) = FLOOD"
    using buffer_append_result(1) [of L e msg s rc sig s'] by simp
  moreover from a have "state (append_grow L e s) \<noteq> FLOOD"
    by (simp add: append_grow_fields)
  ultimately have "state (append_grow L e s) = FULL
      \<and> uint (tolerance (append_grow L e s)) \<le> now e - start (append_grow L e s)"
    by (rule append_levels_enters_flood)
  then show "state s = FULL" and "uint (tolerance s) \<le> now e - start s"
    by (simp_all add: append_grow_fields)
next
  assume "dispatch_locked u = Some (Inr (m, u')) \<and> state u' = FLOOD"
  then have "state (dispatch_levels u) = FLOOD"
    using dispatch_locked_result(1) [of u m u'] by simp
  then show "state u = FLOOD"
    by (rule dispatch_levels_never_enters_flood)
next
  assume a: "buffer_append L e msg s = Inr (rc, sig, s') \<and> state s = FULL
      \<and> uint (tolerance s) \<le> now e - start s"
  then have f: "state (append_grow L e s) = FULL"
    "uint (tolerance (append_grow L e s)) \<le> now e - start (append_grow L e s)"
    by (simp_all add: append_grow_fields)
  from a show "state s' = FLOOD"
    using buffer_append_result(1) [of L e msg s rc sig s'] append_levels_floods(1) [OF f]
    by simp
  from a show "buff_flood s'"
    using buffer_append_result(4) [of L e msg s rc sig s'] append_levels_floods(2) [OF f]
    by simp
qed

theorem flood_only_from_full_after_tolerance_witness:
  "buffer_append no_growth (env_at 11) ''f'' full_minus_one = Inr (0, True, flooded)
   \<and> state flooded = FLOOD \<and> state full_minus_one \<noteq> FLOOD
   \<and> state full_minus_one = FULL
   \<and> uint (tolerance full_minus_one) \<le> now (env_at 11) - start full_minus_one
   \<and> buff_flood flooded
   \<and> dispatch_locked flooded = Some (Inr (Some ''b'', flooded_popped))
   \<and> state flooded_popped = FLOOD"
proof -
  have a: "buffer_append no_growth (env_at 11) ''f'' full_minus_one
      = Inr (0, True, flooded)"
    by code_simp
  have b: "state flooded = FLOOD" "state full_minus_one \<noteq> FLOOD"
    by (simp_all add: flooded_def full_minus_one_def)
  have c: "dispatch_locked flooded = Some (Inr (Some ''b'', flooded_popped))"
    by code_simp
  have d: "state flooded_popped = FLOOD"
    by (simp add: flooded_popped_def flooded_def)
  from flood_only_from_full_after_tolerance
         [of no_growth "env_at 11" "''f''" full_minus_one 0 True flooded flooded
             "Some ''b''" flooded_popped]
  show ?thesis using a b c d by simp
qed

section \<open>Leaving FULL\<close>

text \<open>
  C6 as stated fails: with three messages in four usable slots the fill is 75 percent, not
  full and above \<open>normal_level = 25\<close>, and both state machines leave the state FULL,
  because the fill is not below \<open>warn_level = 75\<close>.
\<close>

theorem full_stays_full_at_warn_level:
  "run no_growth [Append ''a'' (env_at 0), Append ''b'' (env_at 0), Append ''c'' (env_at 0),
      Append ''d'' (env_at 0), Append ''e'' (env_at 0), Pop] started = Inr full_minus_one
   \<and> state full_minus_one = FULL
   \<and> full (message_count full_minus_one) (current_capacity full_minus_one) = 0
   \<and> normal full_minus_one (message_count full_minus_one) (current_capacity full_minus_one) = 0
   \<and> state (dispatch_levels full_minus_one) = FULL
   \<and> state (append_levels (env_at 1) full_minus_one) = FULL"
proof -
  have "state full_minus_one = FULL"
    by (simp add: full_minus_one_def)
  moreover have "full (message_count full_minus_one) (current_capacity full_minus_one) = 0"
    by code_simp
  moreover have
    "normal full_minus_one (message_count full_minus_one) (current_capacity full_minus_one) = 0"
    by code_simp
  moreover have "state (dispatch_levels full_minus_one) = FULL"
    by code_simp
  moreover have "state (append_levels (env_at 1) full_minus_one) = FULL"
    by code_simp
  ultimately show ?thesis
    using run_full_minus_one by blast
qed

text \<open>
  C6, amended. Evaluated in state FULL with a fill that is not normal, the state machine
  goes to WARNING exactly when the fill is strictly below \<open>warn_level\<close> (\<open>nowarn\<close>); in an
  append this also needs the tolerance not to have elapsed and the ring not to be full. The
  transition sets the warn edge flag, clears the full edge flag and leaves the timer
  \<open>start\<close> as it is. With a fill at or above \<open>warn_level\<close> the dispatcher leaves the state
  unchanged and no state machine goes to WARNING.
\<close>

theorem full_to_warning_only_below_warn_level:
  "state s = FULL \<longrightarrow>
     (normal s (message_count s) (current_capacity s) = 0
        \<and> nowarn s (message_count s) (current_capacity s) \<noteq> 0
      \<longrightarrow> state (dispatch_levels s) = WARNING \<and> buff_warn (dispatch_levels s)
          \<and> \<not> buff_full (dispatch_levels s) \<and> start (dispatch_levels s) = start s)
     \<and> (normal s (message_count s) (current_capacity s) = 0
          \<and> nowarn s (message_count s) (current_capacity s) = 0
        \<longrightarrow> dispatch_levels s = s)
     \<and> (\<not> uint (tolerance s) \<le> now e - start s
          \<and> normal s (message_count s) (current_capacity s) = 0
          \<and> nowarn s (message_count s) (current_capacity s) \<noteq> 0
          \<and> full (message_count s) (current_capacity s) = 0
        \<longrightarrow> state (append_levels e s) = WARNING \<and> buff_warn (append_levels e s)
            \<and> \<not> buff_full (append_levels e s) \<and> start (append_levels e s) = start s)
     \<and> (nowarn s (message_count s) (current_capacity s) = 0
        \<longrightarrow> state (dispatch_levels s) \<noteq> WARNING \<and> state (append_levels e s) \<noteq> WARNING)"
  by (simp add: dispatch_levels_def append_levels_def Let_def normal_def nowarn_def)

theorem full_to_warning_only_below_warn_level_witness:
  "state full_minus_two = FULL
   \<and> normal full_minus_two (message_count full_minus_two) (current_capacity full_minus_two) = 0
   \<and> nowarn full_minus_two (message_count full_minus_two) (current_capacity full_minus_two) \<noteq> 0
   \<and> full (message_count full_minus_two) (current_capacity full_minus_two) = 0
   \<and> \<not> uint (tolerance full_minus_two) \<le> now (env_at 1) - start full_minus_two
   \<and> state (dispatch_levels full_minus_two) = WARNING
   \<and> buff_warn (dispatch_levels full_minus_two)
   \<and> state (append_levels (env_at 1) full_minus_two) = WARNING
   \<and> start (append_levels (env_at 1) full_minus_two) = start full_minus_two"
proof -
  have a: "state full_minus_two = FULL"
    by (simp add: full_minus_two_def full_minus_one_def)
  have b: "normal full_minus_two (message_count full_minus_two)
      (current_capacity full_minus_two) = 0"
    by code_simp
  have c: "nowarn full_minus_two (message_count full_minus_two)
      (current_capacity full_minus_two) \<noteq> 0"
    by code_simp
  have d: "full (message_count full_minus_two) (current_capacity full_minus_two) = 0"
    by code_simp
  have e: "\<not> uint (tolerance full_minus_two) \<le> now (env_at 1) - start full_minus_two"
    by (simp add: full_minus_two_def full_minus_one_def started_def env_at_def)
  from full_to_warning_only_below_warn_level [of full_minus_two "env_at 1"] a b c d e
  show ?thesis by simp
qed

section \<open>The edge flags\<close>

text \<open>
  The edge flags after a step of either state machine, from the flags and the level state
  before it and the level state after it. A step that changes the level state is a
  transition.
\<close>

lemma append_levels_normal_flag:
  "buff_normal (append_levels e s) =
     (buff_normal s \<or> (state (append_levels e s) = NORMAL \<and> state s \<noteq> NORMAL))"
  by (cases "state s") (simp_all add: append_levels_def Let_def)

lemma append_levels_warn_flag:
  "buff_warn (append_levels e s) =
     ((buff_warn s \<and> \<not> (state s = WARNING \<and> state (append_levels e s) = NORMAL))
      \<or> (state (append_levels e s) = WARNING \<and> state s \<noteq> WARNING))"
  by (cases "state s") (simp_all add: append_levels_def Let_def)

lemma append_levels_full_flag:
  "buff_full (append_levels e s) =
     ((buff_full s
         \<and> \<not> ((state s = FULL \<or> state s = FLOOD)
               \<and> (state (append_levels e s) = NORMAL \<or> state (append_levels e s) = WARNING)))
      \<or> (state (append_levels e s) = FULL \<and> state s \<noteq> FULL))"
  by (cases "state s") (simp_all add: append_levels_def Let_def)

lemma append_levels_flood_flag:
  "buff_flood (append_levels e s) =
     ((buff_flood s \<and> \<not> (state s = FLOOD \<and> state (append_levels e s) \<noteq> FLOOD))
      \<or> (state (append_levels e s) = FLOOD \<and> state s \<noteq> FLOOD))"
  by (cases "state s") (simp_all add: append_levels_def Let_def)

lemma dispatch_levels_normal_flag:
  "buff_normal (dispatch_levels s) =
     (buff_normal s \<or> (state (dispatch_levels s) = NORMAL \<and> state s \<noteq> NORMAL))"
  by (cases "state s") (simp_all add: dispatch_levels_def)

lemma dispatch_levels_warn_flag:
  "buff_warn (dispatch_levels s) =
     ((buff_warn s \<and> \<not> (state (dispatch_levels s) = NORMAL \<and> state s \<noteq> NORMAL))
      \<or> (state (dispatch_levels s) = WARNING \<and> state s \<noteq> WARNING))"
  by (cases "state s") (simp_all add: dispatch_levels_def)

lemma dispatch_levels_full_flag:
  "buff_full (dispatch_levels s) =
     (buff_full s
      \<and> \<not> ((state s = FULL \<or> state s = FLOOD)
            \<and> (state (dispatch_levels s) = NORMAL \<or> state (dispatch_levels s) = WARNING)))"
  by (cases "state s") (simp_all add: dispatch_levels_def)

lemma dispatch_levels_flood_flag:
  "buff_flood (dispatch_levels s) =
     (buff_flood s \<and> \<not> (state s = FLOOD \<and> state (dispatch_levels s) \<noteq> FLOOD))"
  by (cases "state s") (simp_all add: dispatch_levels_def)

lemma run_full_minus_two:
  "run no_growth [Append ''a'' (env_at 0), Append ''b'' (env_at 0), Append ''c'' (env_at 0),
     Append ''d'' (env_at 0), Append ''e'' (env_at 0), Pop, Pop] started = Inr full_minus_two"
  by code_simp

text \<open>
  C5 as stated fails: the transitions of both state machines clear edge flags themselves.
  After five appends and two iterations of the dispatcher, the critical section of the
  third iteration goes from FULL to WARNING and sets the warn edge flag. An append that
  runs before the notifications of that iteration finds the fill at \<open>normal_level\<close>, goes
  to NORMAL and clears the warn edge flag; the dispatcher then sends the normal
  notification only.
\<close>

theorem append_clears_pending_warn_flag:
  "run no_growth [Append ''a'' (env_at 0), Append ''b'' (env_at 0), Append ''c'' (env_at 0),
      Append ''d'' (env_at 0), Append ''e'' (env_at 0), Pop, Pop] started = Inr full_minus_two
   \<and> dispatch_locked full_minus_two = Some (Inr (Some ''c'', warn_pending))
   \<and> buff_warn warn_pending
   \<and> buffer_append no_growth (env_at 0) ''f'' warn_pending = Inr (0, True, warn_lost)
   \<and> \<not> buff_warn warn_lost
   \<and> fst (dispatch_notify warn_lost) = [Normal_notice]"
proof -
  have "dispatch_locked full_minus_two = Some (Inr (Some ''c'', warn_pending))"
    by code_simp
  moreover have "buff_warn warn_pending"
    by (simp add: warn_pending_def)
  moreover have
    "buffer_append no_growth (env_at 0) ''f'' warn_pending = Inr (0, True, warn_lost)"
    by code_simp
  moreover have "\<not> buff_warn warn_lost"
    by (simp add: warn_lost_def)
  moreover have "fst (dispatch_notify warn_lost) = [Normal_notice]"
    by code_simp
  ultimately show ?thesis
    using run_full_minus_two by simp
qed

text \<open>
  C5, amended. After an append that returns, and after a critical section of the
  dispatcher, every edge flag is determined by its value before and by the transition of
  the level state, as follows. A step that leaves the level state as it is leaves all four
  flags as they are. A transition sets the flag of the state it enters, and the normal flag
  is never cleared by a step. A transition clears flags without a notification: in an
  append, the warn flag on WARNING to NORMAL and on no other transition, the full flag on
  every transition from FULL or FLOOD to NORMAL or WARNING, the flood flag on every
  transition out of FLOOD; in the dispatcher, the warn flag on every transition into
  NORMAL, the full flag on every transition from FULL or FLOOD to NORMAL or WARNING, the
  flood flag on every transition out of FLOOD. The notifications of the dispatcher are
  exactly one notice for each flag that is set, in the order warn, full, flood, normal, and
  they clear all four flags and leave the level state.
\<close>

theorem edge_flags_cleared_by_transitions_or_notification:
  "(buffer_append L e msg s = Inr (rc, sig, s') \<longrightarrow>
      buff_normal s' = (buff_normal s \<or> (state s' = NORMAL \<and> state s \<noteq> NORMAL))
      \<and> buff_warn s' =
          ((buff_warn s \<and> \<not> (state s = WARNING \<and> state s' = NORMAL))
           \<or> (state s' = WARNING \<and> state s \<noteq> WARNING))
      \<and> buff_full s' =
          ((buff_full s
              \<and> \<not> ((state s = FULL \<or> state s = FLOOD)
                    \<and> (state s' = NORMAL \<or> state s' = WARNING)))
           \<or> (state s' = FULL \<and> state s \<noteq> FULL))
      \<and> buff_flood s' =
          ((buff_flood s \<and> \<not> (state s = FLOOD \<and> state s' \<noteq> FLOOD))
           \<or> (state s' = FLOOD \<and> state s \<noteq> FLOOD)))
   \<and> (dispatch_locked u = Some (Inr (m, u')) \<longrightarrow>
      buff_normal u' = (buff_normal u \<or> (state u' = NORMAL \<and> state u \<noteq> NORMAL))
      \<and> buff_warn u' =
          ((buff_warn u \<and> \<not> (state u' = NORMAL \<and> state u \<noteq> NORMAL))
           \<or> (state u' = WARNING \<and> state u \<noteq> WARNING))
      \<and> buff_full u' =
          (buff_full u
           \<and> \<not> ((state u = FULL \<or> state u = FLOOD)
                 \<and> (state u' = NORMAL \<or> state u' = WARNING)))
      \<and> buff_flood u' = (buff_flood u \<and> \<not> (state u = FLOOD \<and> state u' \<noteq> FLOOD)))
   \<and> fst (dispatch_notify v) =
       filter (\<lambda>n. (n = Warn_notice \<and> buff_warn v) \<or> (n = Full_notice \<and> buff_full v)
                    \<or> (n = Flood_notice \<and> buff_flood v)
                    \<or> (n = Normal_notice \<and> buff_normal v))
         [Warn_notice, Full_notice, Flood_notice, Normal_notice]
   \<and> \<not> buff_warn (snd (dispatch_notify v)) \<and> \<not> buff_full (snd (dispatch_notify v))
   \<and> \<not> buff_flood (snd (dispatch_notify v)) \<and> \<not> buff_normal (snd (dispatch_notify v))
   \<and> state (snd (dispatch_notify v)) = state v"
proof (intro conjI impI)
  assume r: "buffer_append L e msg s = Inr (rc, sig, s')"
  note res = buffer_append_result [OF r]
  let ?g = "append_grow L e s"
  show "buff_normal s' = (buff_normal s \<or> (state s' = NORMAL \<and> state s \<noteq> NORMAL))"
    using append_levels_normal_flag [of e ?g] by (simp add: res(1,5) append_grow_fields)
  show "buff_warn s' =
          ((buff_warn s \<and> \<not> (state s = WARNING \<and> state s' = NORMAL))
           \<or> (state s' = WARNING \<and> state s \<noteq> WARNING))"
    using append_levels_warn_flag [of e ?g] by (simp add: res(1,2) append_grow_fields)
  show "buff_full s' =
          ((buff_full s
              \<and> \<not> ((state s = FULL \<or> state s = FLOOD)
                    \<and> (state s' = NORMAL \<or> state s' = WARNING)))
           \<or> (state s' = FULL \<and> state s \<noteq> FULL))"
    using append_levels_full_flag [of e ?g] by (simp add: res(1,3) append_grow_fields)
  show "buff_flood s' =
          ((buff_flood s \<and> \<not> (state s = FLOOD \<and> state s' \<noteq> FLOOD))
           \<or> (state s' = FLOOD \<and> state s \<noteq> FLOOD))"
    using append_levels_flood_flag [of e ?g] by (simp add: res(1,4) append_grow_fields)
next
  assume r: "dispatch_locked u = Some (Inr (m, u'))"
  note res = dispatch_locked_result [OF r]
  show "buff_normal u' = (buff_normal u \<or> (state u' = NORMAL \<and> state u \<noteq> NORMAL))"
    using dispatch_levels_normal_flag [of u] by (simp add: res(1,5))
  show "buff_warn u' =
          ((buff_warn u \<and> \<not> (state u' = NORMAL \<and> state u \<noteq> NORMAL))
           \<or> (state u' = WARNING \<and> state u \<noteq> WARNING))"
    using dispatch_levels_warn_flag [of u] by (simp add: res(1,2))
  show "buff_full u' =
          (buff_full u
           \<and> \<not> ((state u = FULL \<or> state u = FLOOD)
                 \<and> (state u' = NORMAL \<or> state u' = WARNING)))"
    using dispatch_levels_full_flag [of u] by (simp add: res(1,3))
  show "buff_flood u' = (buff_flood u \<and> \<not> (state u = FLOOD \<and> state u' \<noteq> FLOOD))"
    using dispatch_levels_flood_flag [of u] by (simp add: res(1,4))
next
  show "fst (dispatch_notify v) =
       filter (\<lambda>n. (n = Warn_notice \<and> buff_warn v) \<or> (n = Full_notice \<and> buff_full v)
                    \<or> (n = Flood_notice \<and> buff_flood v)
                    \<or> (n = Normal_notice \<and> buff_normal v))
         [Warn_notice, Full_notice, Flood_notice, Normal_notice]"
    by (simp add: dispatch_notify_def)
qed (simp_all add: dispatch_notify_def)

text \<open>
  The theorem at three steps that clear a flag which no notification has reported. The
  append to \<open>warn_pending\<close> goes from WARNING to NORMAL and clears the warn flag. The
  append to \<open>flood_pending_popped\<close> goes from FLOOD to WARNING and clears the full and the
  flood flag; the notifications that follow send the warn notice only. The critical section
  on \<open>flood_unsent\<close> goes from FLOOD to WARNING and clears the flood flag.
\<close>

theorem edge_flags_cleared_by_transitions_or_notification_witness:
  "buffer_append no_growth (env_at 0) ''f'' warn_pending = Inr (0, True, warn_lost)
   \<and> buff_warn warn_pending \<and> state warn_pending = WARNING \<and> state warn_lost = NORMAL
   \<and> \<not> buff_warn warn_lost \<and> buff_normal warn_lost
   \<and> buffer_init no_growth scenario_config_100 True uninitialized = Inr started_100
   \<and> run no_growth [Append ''a'' (env_at 0), Append ''b'' (env_at 0), Append ''c'' (env_at 0),
        Append ''d'' (env_at 0), Append ''e'' (env_at 0), Append ''f'' (env_at 11)] started_100
       = Inr flood_pending
   \<and> dispatch_locked flood_pending = Some (Inr (Some ''a'', flood_pending_popped))
   \<and> buffer_append no_growth (env_at 12) ''g'' flood_pending_popped = Inr (0, True, flood_lost)
   \<and> buff_full flood_pending_popped \<and> buff_flood flood_pending_popped
   \<and> state flood_pending_popped = FLOOD \<and> state flood_lost = WARNING
   \<and> \<not> buff_full flood_lost \<and> \<not> buff_flood flood_lost \<and> buff_warn flood_lost
   \<and> fst (dispatch_notify flood_lost) = [Warn_notice]
   \<and> run no_growth [Append ''f'' (env_copy_fails 11)] full_minus_two = Inr flood_unsent
   \<and> dispatch_locked flood_unsent = Some (Inr (Some ''c'', flood_unsent_popped))
   \<and> buff_flood flood_unsent \<and> state flood_unsent = FLOOD
   \<and> state flood_unsent_popped = WARNING
   \<and> \<not> buff_flood flood_unsent_popped \<and> buff_warn flood_unsent_popped"
proof -
  have a1: "buffer_append no_growth (env_at 0) ''f'' warn_pending = Inr (0, True, warn_lost)"
    by code_simp
  have a2: "buffer_append no_growth (env_at 12) ''g'' flood_pending_popped
      = Inr (0, True, flood_lost)"
    by code_simp
  have d1: "dispatch_locked flood_unsent = Some (Inr (Some ''c'', flood_unsent_popped))"
    by code_simp
  have d2: "dispatch_locked flood_pending = Some (Inr (Some ''a'', flood_pending_popped))"
    by code_simp
  have r1: "buffer_init no_growth scenario_config_100 True uninitialized = Inr started_100"
    by code_simp
  have r2: "run no_growth [Append ''a'' (env_at 0), Append ''b'' (env_at 0),
        Append ''c'' (env_at 0), Append ''d'' (env_at 0), Append ''e'' (env_at 0),
        Append ''f'' (env_at 11)] started_100 = Inr flood_pending"
    by code_simp
  have r3: "run no_growth [Append ''f'' (env_copy_fails 11)] full_minus_two = Inr flood_unsent"
    by code_simp
  have before: "buff_warn warn_pending" "\<not> buff_normal warn_pending"
    "buff_full flood_pending_popped" "buff_flood flood_pending_popped"
    "\<not> buff_warn flood_pending_popped" "\<not> buff_normal flood_pending_popped"
    "buff_flood flood_unsent" "\<not> buff_warn flood_unsent"
    by (simp_all add: warn_pending_def flood_pending_popped_def flood_pending_def
        flood_unsent_def full_minus_two_def full_minus_one_def started_100_def started_def)
  have states: "state warn_pending = WARNING" "state warn_lost = NORMAL"
    "state flood_pending_popped = FLOOD" "state flood_lost = WARNING"
    "state flood_unsent = FLOOD" "state flood_unsent_popped = WARNING"
    by (simp_all add: warn_pending_def warn_lost_def flood_pending_popped_def
        flood_pending_def flood_lost_def flood_unsent_def flood_unsent_popped_def)
  note t1 = edge_flags_cleared_by_transitions_or_notification
      [of no_growth "env_at 0" "''f''" warn_pending 0 True warn_lost
          flood_unsent "Some ''c''" flood_unsent_popped flood_lost]
  note t2 = edge_flags_cleared_by_transitions_or_notification
      [of no_growth "env_at 12" "''g''" flood_pending_popped 0 True flood_lost
          flood_pending "Some ''a''" flood_pending_popped flood_lost]
  from t1 a1 d1 before states
  have w: "\<not> buff_warn warn_lost" "buff_normal warn_lost"
    "\<not> buff_flood flood_unsent_popped" "buff_warn flood_unsent_popped"
    by simp_all
  from t2 a2 d2 before states
  have f: "\<not> buff_full flood_lost" "\<not> buff_flood flood_lost" "buff_warn flood_lost"
    "\<not> buff_normal flood_lost"
    by simp_all
  from t2 f have n: "fst (dispatch_notify flood_lost) = [Warn_notice]"
    by simp
  from a1 a2 d1 d2 r1 r2 r3 before states w f n show ?thesis
    by blast
qed

section \<open>The message counter\<close>

lemma buffer_append_return_value:
  assumes "buffer_append L e msg s = Inr (rc, sig, s')"
  shows "(rc = 0 \<and> sig) \<or> (rc = - 1 \<and> \<not> sig)"
  using assms
  by (auto simp: buffer_append_def append_store_def split: if_splits sum.splits prod.splits)

text \<open>
  C7 as stated fails: \<open>buffer_append\<close> updates the counter before it tests whether the
  ring is full. The fifth append of the scenario is dropped with -1 and the counter goes
  from 4 to 5.
\<close>

theorem dropped_append_is_counted:
  "run no_growth [Append ''a'' (env_at 0), Append ''b'' (env_at 0), Append ''c'' (env_at 0),
      Append ''d'' (env_at 0)] started = Inr after_four
   \<and> msg_count after_four = 4
   \<and> buffer_append no_growth (env_at 0) ''e'' after_four =
       Inr (- 1, False,
            after_four\<lparr>buff_full := True, state := FULL, start := 0, msg_count := 5\<rparr>)
   \<and> msg_count (after_four\<lparr>buff_full := True, state := FULL, start := 0, msg_count := 5\<rparr>)
       \<noteq> msg_count after_four"
  using run_no_growth_after_four no_growth_fifth_append_dropped
  by (simp add: after_four_def)

text \<open>
  C7, amended. Every call of append that returns increments the message counter by exactly
  one, whether it returns 0 (stored) or -1 (dropped, or the copy failed).
\<close>

theorem every_append_is_counted:
  "buffer_append L e msg s = Inr (rc, sig, s') \<longrightarrow>
     msg_count s' = msg_count s + 1 \<and> (rc = 0 \<or> rc = - 1)"
proof
  assume r: "buffer_append L e msg s = Inr (rc, sig, s')"
  from buffer_append_result(9) [OF r] buffer_append_return_value [OF r]
  show "msg_count s' = msg_count s + 1 \<and> (rc = 0 \<or> rc = - 1)"
    by auto
qed

theorem every_append_is_counted_witness:
  "buffer_append no_growth (env_at 0) ''e'' after_four =
       Inr (- 1, False,
            after_four\<lparr>buff_full := True, state := FULL, start := 0, msg_count := 5\<rparr>)
   \<and> msg_count (after_four\<lparr>buff_full := True, state := FULL, start := 0, msg_count := 5\<rparr>)
       = msg_count after_four + 1"
  using every_append_is_counted [of no_growth "env_at 0" "''e''" after_four "- 1" False
      "after_four\<lparr>buff_full := True, state := FULL, start := 0, msg_count := 5\<rparr>"]
    no_growth_fifth_append_dropped
  by simp

section \<open>A failed copy of the message\<close>

lemma append_store_copy_fails:
  assumes "\<not> strdup_ok e" and "append_store e msg s = Inr (rc, sig, s')"
  shows "rc = - 1" and "\<not> sig" and "message_count s' = message_count s"
    and "i_head s' = i_head s" and "j_tail s' = j_tail s"
    and "current_capacity s' = current_capacity s" and "state s' = state s"
    and "buff_warn s' = buff_warn s" and "buff_full s' = buff_full s"
    and "buff_flood s' = buff_flood s" and "buff_normal s' = buff_normal s"
    and "start s' = start s"
  using assms
  by (auto simp: append_store_def split: if_splits sum.splits prod.splits)

text \<open>
  C8 as stated fails: the growth step and the state machine of the append have run before
  the copy. On the buffer with three of four usable slots taken, an append whose copy fails
  returns -1 and leaves the capacity at 10 instead of 5 when the ring can grow, and the
  state at WARNING instead of NORMAL with the warn edge flag set when it cannot.
\<close>

theorem failed_copy_changes_capacity_and_level:
  "run no_growth [Append ''a'' (env_at 0), Append ''b'' (env_at 0),
      Append ''c'' (env_at 0)] started = Inr after_three
   \<and> full (message_count after_three) (current_capacity after_three) = 0
   \<and> buffer_append growth_to_16 (env_copy_fails 0) ''d'' after_three =
       Inr (- 1, False, after_three\<lparr>buffer := Some [Some ''a'', Some ''b'', Some ''c'', None, None,
                                                      None, None, None, None, None],
                                     current_capacity := 10, msg_count := 4\<rparr>)
   \<and> current_capacity after_three = 5
   \<and> buffer_append no_growth (env_copy_fails 0) ''d'' after_three =
       Inr (- 1, False, after_three\<lparr>state := WARNING, buff_warn := True, msg_count := 4\<rparr>)
   \<and> state after_three = NORMAL \<and> \<not> buff_warn after_three"
proof -
  have "full (message_count after_three) (current_capacity after_three) = 0"
    by code_simp
  moreover have "buffer_append growth_to_16 (env_copy_fails 0) ''d'' after_three =
       Inr (- 1, False, after_three\<lparr>buffer := Some [Some ''a'', Some ''b'', Some ''c'', None, None,
                                                      None, None, None, None, None],
                                     current_capacity := 10, msg_count := 4\<rparr>)"
    by code_simp
  moreover have "buffer_append no_growth (env_copy_fails 0) ''d'' after_three =
       Inr (- 1, False, after_three\<lparr>state := WARNING, buff_warn := True, msg_count := 4\<rparr>)"
    by code_simp
  moreover have "current_capacity after_three = 5" "state after_three = NORMAL"
    "\<not> buff_warn after_three"
    by (simp_all add: after_three_def started_def)
  ultimately show ?thesis
    using run_no_growth_after_three by blast
qed

text \<open>
  C8, amended. If the copy of the message fails, an append that returns returns -1, sends
  no signal and leaves count, head and tail as they were before the call. The capacity is
  the one its growth step left, and the level state, the edge flags and \<open>start\<close> are the
  ones its state machine left: they may differ from those before the call. When the ring
  is not full after the growth step and the slot at the head can be addressed, the append
  does return, with that slot emptied.
\<close>

theorem failed_copy_keeps_ring_position:
  "(\<not> strdup_ok e \<and> buffer_append L e msg s = Inr (rc, sig, s') \<longrightarrow>
      rc = - 1 \<and> \<not> sig
      \<and> message_count s' = message_count s \<and> i_head s' = i_head s \<and> j_tail s' = j_tail s
      \<and> current_capacity s' = current_capacity (append_grow L e s)
      \<and> state s' = state (append_levels e (append_grow L e s))
      \<and> buff_warn s' = buff_warn (append_levels e (append_grow L e s))
      \<and> buff_full s' = buff_full (append_levels e (append_grow L e s))
      \<and> buff_flood s' = buff_flood (append_levels e (append_grow L e s))
      \<and> buff_normal s' = buff_normal (append_levels e (append_grow L e s))
      \<and> start s' = start (append_levels e (append_grow L e s)))
   \<and> (\<not> strdup_ok e
        \<and> full (message_count s) (current_capacity (append_grow L e s)) = 0
        \<and> slot_index (buffer (append_grow L e s)) (i_head s) = Inr (xs, k) \<longrightarrow>
      buffer_append L e msg s =
        Inr (- 1, False,
             (append_levels e (append_grow L e s))
               \<lparr>msg_count := Suc (msg_count s), buffer := Some (xs[k := None])\<rparr>))"
proof (intro conjI impI)
  assume a: "\<not> strdup_ok e \<and> buffer_append L e msg s = Inr (rc, sig, s')"
  then have r: "buffer_append L e msg s = Inr (rc, sig, s')" and n: "\<not> strdup_ok e"
    by simp_all
  note res = buffer_append_result [OF r]
  from r have st: "append_store e msg
      (w_agentd_state_update_INCREMENT_MSG_COUNT (append_levels e (append_grow L e s)))
      = Inr (rc, sig, s')"
    by (simp add: buffer_append_def)
  note cf = append_store_copy_fails [OF n st]
  show "rc = - 1" by (rule cf(1))
  show "\<not> sig" by (rule cf(2))
  show "message_count s' = message_count s"
    using cf(3)
    by (simp add: w_agentd_state_update_INCREMENT_MSG_COUNT_def append_levels_fields
        append_grow_fields)
  show "i_head s' = i_head s"
    using cf(4)
    by (simp add: w_agentd_state_update_INCREMENT_MSG_COUNT_def append_levels_fields
        append_grow_fields)
  show "j_tail s' = j_tail s" by (rule res(8))
  show "current_capacity s' = current_capacity (append_grow L e s)" by (rule res(7))
  show "state s' = state (append_levels e (append_grow L e s))" by (rule res(1))
  show "buff_warn s' = buff_warn (append_levels e (append_grow L e s))" by (rule res(2))
  show "buff_full s' = buff_full (append_levels e (append_grow L e s))" by (rule res(3))
  show "buff_flood s' = buff_flood (append_levels e (append_grow L e s))" by (rule res(4))
  show "buff_normal s' = buff_normal (append_levels e (append_grow L e s))" by (rule res(5))
  show "start s' = start (append_levels e (append_grow L e s))" by (rule res(6))
next
  assume "\<not> strdup_ok e
        \<and> full (message_count s) (current_capacity (append_grow L e s)) = 0
        \<and> slot_index (buffer (append_grow L e s)) (i_head s) = Inr (xs, k)"
  then show "buffer_append L e msg s =
        Inr (- 1, False,
             (append_levels e (append_grow L e s))
               \<lparr>msg_count := Suc (msg_count s), buffer := Some (xs[k := None])\<rparr>)"
    by (simp add: buffer_append_def append_store_def
        w_agentd_state_update_INCREMENT_MSG_COUNT_def append_levels_fields append_grow_fields)
qed

theorem failed_copy_keeps_ring_position_witness:
  "\<not> strdup_ok (env_copy_fails 0)
   \<and> buffer_append no_growth (env_copy_fails 0) ''d'' after_three =
       Inr (- 1, False, after_three\<lparr>state := WARNING, buff_warn := True, msg_count := 4\<rparr>)
   \<and> message_count (after_three\<lparr>state := WARNING, buff_warn := True, msg_count := 4\<rparr>)
       = message_count after_three
   \<and> full (message_count after_three)
        (current_capacity (append_grow no_growth (env_copy_fails 0) after_three)) = 0
   \<and> slot_index (buffer (append_grow no_growth (env_copy_fails 0) after_three))
        (i_head after_three)
       = Inr ([Some ''a'', Some ''b'', Some ''c'', None, None], 3)"
proof -
  have a: "\<not> strdup_ok (env_copy_fails 0)"
    by (simp add: env_copy_fails_def)
  have b: "buffer_append no_growth (env_copy_fails 0) ''d'' after_three =
       Inr (- 1, False, after_three\<lparr>state := WARNING, buff_warn := True, msg_count := 4\<rparr>)"
    by code_simp
  have c: "full (message_count after_three)
        (current_capacity (append_grow no_growth (env_copy_fails 0) after_three)) = 0"
    by code_simp
  have d: "slot_index (buffer (append_grow no_growth (env_copy_fails 0) after_three))
        (i_head after_three)
       = Inr ([Some ''a'', Some ''b'', Some ''c'', None, None], 3)"
    by code_simp
  from failed_copy_keeps_ring_position
         [of "env_copy_fails 0" no_growth "''d''" after_three "- 1" False
             "after_three\<lparr>state := WARNING, buff_warn := True, msg_count := 4\<rparr>"
             "[Some ''a'', Some ''b'', Some ''c'', None, None]" 3]
  show ?thesis using a b c d by blast
qed

section \<open>The growth policy\<close>

text \<open>
  C9. An append calls \<open>resize_internal_buffer\<close> only in state WARNING, or in state NORMAL
  when \<open>warn\<close> already holds; the capacity it asks for is
  \<open>min MAX_BUFFER_CAPACITY (max MIN_BUFFER_CAPACITY (capacity * 2))\<close>, the product taken
  in 32 bits, which is the product of the natural numbers for a capacity below \<open>2^31\<close>; it
  calls only when that capacity is strictly greater than the current one;
  the growth step changes the capacity only to the capacity asked for; and over every run
  of appends and dispatcher iterations the capacity does not decrease.
\<close>

theorem growth_policy_and_capacity_monotone:
  "(resize_request L s = Some n \<longrightarrow>
      (state s = WARNING
         \<or> (state s = NORMAL \<and> warn s (message_count s) (current_capacity s) \<noteq> 0))
      \<and> n = min (MAX_BUFFER_CAPACITY L) (max (MIN_BUFFER_CAPACITY L) (current_capacity s * 2))
      \<and> (unat (current_capacity s) < 2 ^ 31 \<longrightarrow>
            unat n = min (unat (MAX_BUFFER_CAPACITY L))
                       (max (unat (MIN_BUFFER_CAPACITY L)) (unat (current_capacity s) * 2)))
      \<and> current_capacity s < n)
   \<and> (current_capacity (append_grow L e s) \<noteq> current_capacity s \<longrightarrow>
        resize_request L s = Some (current_capacity (append_grow L e s)))
   \<and> (buffer_append L e msg s = Inr (rc, sig, s') \<longrightarrow>
        current_capacity s \<le> current_capacity s')
   \<and> (run L cs u = Inr u' \<longrightarrow> current_capacity u \<le> current_capacity u')"
proof (intro conjI impI)
  assume r: "resize_request L s = Some n"
  show "state s = WARNING
      \<or> (state s = NORMAL \<and> warn s (message_count s) (current_capacity s) \<noteq> 0)"
    by (rule resize_request_Some(3) [OF r])
  show "n = min (MAX_BUFFER_CAPACITY L) (max (MIN_BUFFER_CAPACITY L) (current_capacity s * 2))"
    using resize_request_Some(1) [OF r] by (simp add: new_desired_capacity_min_max)
  show "current_capacity s < n"
    by (rule resize_request_Some(2) [OF r])
  show "unat n = min (unat (MAX_BUFFER_CAPACITY L))
        (max (unat (MIN_BUFFER_CAPACITY L)) (unat (current_capacity s) * 2))"
    if "unat (current_capacity s) < 2 ^ 31"
    using resize_request_Some(1) [OF r] new_desired_capacity_unat [OF that] by simp
next
  assume "current_capacity (append_grow L e s) \<noteq> current_capacity s"
  then show "resize_request L s = Some (current_capacity (append_grow L e s))"
    using append_grow_capacity [of L e s] by simp
next
  assume "buffer_append L e msg s = Inr (rc, sig, s')"
  then show "current_capacity s \<le> current_capacity s'"
    by (rule buffer_append_capacity_mono)
next
  assume "run L cs u = Inr u'"
  then show "current_capacity u \<le> current_capacity u'"
    by (rule run_capacity_mono)
qed

theorem growth_policy_and_capacity_monotone_witness:
  "resize_request growth_to_16 after_three = Some 10
   \<and> state after_three = NORMAL
   \<and> warn after_three (message_count after_three) (current_capacity after_three) \<noteq> 0
   \<and> current_capacity after_three = 5
   \<and> (10 :: u32) = min 16 (max 2 (5 * 2))
   \<and> unat (current_capacity after_three) < 2 ^ 31
   \<and> current_capacity (append_grow growth_to_16 (env_at 0) after_three) = 10
   \<and> buffer_append growth_to_16 (env_at 0) ''d'' after_three = Inr (0, True, grown_four)
   \<and> run growth_to_16 [Append ''d'' (env_at 0), Pop, Append ''e'' (env_at 0)] after_three
       = Inr grown_popped
   \<and> current_capacity after_three \<le> current_capacity grown_popped"
proof -
  have a: "resize_request growth_to_16 after_three = Some 10"
    by code_simp
  have b: "current_capacity (append_grow growth_to_16 (env_at 0) after_three) = 10"
    by code_simp
  have c: "buffer_append growth_to_16 (env_at 0) ''d'' after_three = Inr (0, True, grown_four)"
    by code_simp
  have d: "run growth_to_16 [Append ''d'' (env_at 0), Pop, Append ''e'' (env_at 0)] after_three
       = Inr grown_popped"
    by code_simp
  have f: "current_capacity after_three = 5" "state after_three = NORMAL"
    "unat (current_capacity after_three) < 2 ^ 31"
    by (simp_all add: after_three_def started_def)
  from growth_policy_and_capacity_monotone
         [of growth_to_16 after_three 10 "env_at 0" "''d''" 0 True grown_four
             "[Append ''d'' (env_at 0), Pop, Append ''e'' (env_at 0)]" after_three grown_popped]
  show ?thesis using a b c d f by (simp add: growth_to_16_def)
qed

section \<open>Snapshots of a buffer that is not initialised\<close>

text \<open>
  C10. With \<open>current_capacity = 0\<close> and \<open>message_count = 0\<close>, as before the first
  \<open>buffer_init\<close> and after \<open>buffer_destroy\<close>, \<open>buffer_is_full\<close> returns 0 and
  \<open>buffer_is_empty\<close> returns 1: \<open>full\<close> compares the count with \<open>capacity - 1\<close>, which
  wraps to \<open>2^32 - 1\<close> in unsigned 32-bit arithmetic. (The functions lock the mutex, which
  \<open>buffer_destroy\<close> has destroyed; the mutex is outside this model.)
\<close>

theorem uninitialized_not_full_and_empty:
  "(current_capacity s = 0 \<and> message_count s = 0 \<longrightarrow>
      buffer_is_full s = 0 \<and> buffer_is_empty s = 1
      \<and> unat (current_capacity s - 1) = 2 ^ 32 - 1
      \<and> full (message_count s) (current_capacity s) = 0)
   \<and> buffer_is_full uninitialized = 0 \<and> buffer_is_empty uninitialized = 1
   \<and> buffer_is_full (buffer_destroy u) = 0 \<and> buffer_is_empty (buffer_destroy u) = 1"
  by (simp add: buffer_is_full_def buffer_is_empty_def full_def empty_def
        buffer_destroy_def uninitialized_def unsigned_minus_1_eq_mask mask_eq_exp_minus_1)

theorem uninitialized_not_full_and_empty_witness:
  "current_capacity (buffer_destroy started) = 0
   \<and> message_count (buffer_destroy started) = 0
   \<and> buffer_is_full (buffer_destroy started) = 0
   \<and> buffer_is_empty (buffer_destroy started) = 1
   \<and> unat (current_capacity (buffer_destroy started) - 1) = 4294967295"
  using uninitialized_not_full_and_empty [of "buffer_destroy started" started]
  by (simp add: buffer_destroy_def started_def)


end
